theory Spec2Isabelle
  imports Complex_Main "HOL-Library.Char_ord" "HOL-Library.List_Lexorder"
begin

section \<open>Data model (models/Family.js, models/Task.js)\<close>

text \<open>
  Document identifiers (Mongo ObjectIds) are natural numbers; an instant is the time value
  of a JavaScript Date, in milliseconds since the epoch. A member's score is a JavaScript
  Number, an IEEE double; the model keeps the scores that are whole numbers and writes them
  as integers, with the addition of doubles on them (section "JavaScript numbers"). A
  member is known to the handlers by its place in the family's array. The identifiers of
  members and comments, the credential hash of a family and the \<open>updatedAt\<close> timestamps are
  read by no handler and are left out.
\<close>

type_synonym oid = nat
type_synonym instant = int

datatype priority = Low | Medium | High

record member =
  name :: string
  score :: int

record family =
  fid :: oid
  fname :: string
  fcode :: string
  members :: "member list"

record comment =
  cmember :: string
  ctext :: string
  ccreatedAt :: instant

record task =
  tid :: oid
  tfamily :: oid
  title :: string
  description :: "string option"
  priority :: priority
  assignedTo :: "string option"
  dueDate :: "instant option"
  completed :: bool
  completedAt :: "instant option"
  comments :: "comment list"
  createdAt :: instant

section \<open>The document store\<close>

text \<open>
  The two collections, the counter that stands for the ObjectId generator, and the log of
  the writes issued to the persistence layer. \<open>save\<close> of a loaded document replaces the
  stored document of the same \<open>_id\<close>; \<open>save\<close> of a new document appends it. The store
  itself is taken not to fail; the validation that precedes a write is part of the
  handlers (section "The other handlers that write").
\<close>

datatype db_write = TaskWrite task | FamilyWrite family | TaskDelete oid

record store =
  Tasks :: "task list"
  Families :: "family list"
  next_oid :: oid
  writes :: "db_write list"

text \<open>A reply is the body of a successful answer, or the status code of a refusal.\<close>

datatype 'a reply = Ok 'a | Err nat

definition findOne_task :: "oid \<Rightarrow> oid \<Rightarrow> store \<Rightarrow> task option" where
  "findOne_task i f s = find (\<lambda>t. tid t = i \<and> tfamily t = f) (Tasks s)"

definition find_tasks :: "oid \<Rightarrow> store \<Rightarrow> task list" where
  "find_tasks f s = filter (\<lambda>t. tfamily t = f) (Tasks s)"

definition save_task :: "task \<Rightarrow> store \<Rightarrow> store" where
  "save_task t s =
     s\<lparr>Tasks := map (\<lambda>x. if tid x = tid t then t else x) (Tasks s),
       writes := writes s @ [TaskWrite t]\<rparr>"

definition save_family :: "family \<Rightarrow> store \<Rightarrow> store" where
  "save_family f s =
     s\<lparr>Families := map (\<lambda>x. if fid x = fid f then f else x) (Families s),
       writes := writes s @ [FamilyWrite f]\<rparr>"

definition insert_task :: "task \<Rightarrow> store \<Rightarrow> store" where
  "insert_task t s =
     s\<lparr>Tasks := Tasks s @ [t], next_oid := Suc (next_oid s),
       writes := writes s @ [TaskWrite t]\<rparr>"

definition insert_family :: "family \<Rightarrow> store \<Rightarrow> store" where
  "insert_family f s =
     s\<lparr>Families := Families s @ [f], next_oid := Suc (next_oid s),
       writes := writes s @ [FamilyWrite f]\<rparr>"

text \<open>\<open>deleteOne\<close> removes the first document that matches.\<close>

fun delete_first :: "('a \<Rightarrow> bool) \<Rightarrow> 'a list \<Rightarrow> 'a list" where
  "delete_first P [] = []"
| "delete_first P (x # xs) = (if P x then xs else x # delete_first P xs)"

definition deleteOne_task :: "oid \<Rightarrow> oid \<Rightarrow> store \<Rightarrow> nat \<times> store" where
  "deleteOne_task i f s =
     (let deletedCount = (if list_ex (\<lambda>t. tid t = i \<and> tfamily t = f) (Tasks s) then 1 else 0)
      in (deletedCount,
          s\<lparr>Tasks := delete_first (\<lambda>t. tid t = i \<and> tfamily t = f) (Tasks s),
            writes := writes s @ [TaskDelete i]\<rparr>))"

text \<open>
  The authentication hook: a request carries the \<open>familyId\<close> of its verified token (the
  verification itself is not modelled), and the hook loads that family afresh; a request
  whose family is gone is answered 401.
\<close>

definition authenticate :: "oid \<Rightarrow> store \<Rightarrow> family option" where
  "authenticate c s = find (\<lambda>f. fid f = c) (Families s)"

section \<open>JavaScript numbers\<close>

text \<open>
  The sum of two doubles is the double nearest to the exact sum, and of two equally near
  ones the one whose significand is even. A double has 53 significant bits: every integer
  up to \<open>2^53 = 9007199254740992\<close> in magnitude is a double, and beyond that the doubles
  are the multiples of \<open>2^k\<close>, where \<open>k\<close> is the number of bits a magnitude has in excess of
  53. \<open>Number_of_int\<close> is that rounding on integers, and \<open>Number_add\<close> the sum of two
  integer-valued doubles. Scores with a fractional part, and magnitudes beyond the largest
  double (which a sum with 1 does not reach from a double), are outside the model.
\<close>

function ulp_exp :: "int \<Rightarrow> nat" where
  "ulp_exp n = (if n < 9007199254740992 then 0 else Suc (ulp_exp (n div 2)))"
  by pat_completeness auto
termination
  by (relation "measure nat") auto

declare ulp_exp.simps [simp del]

definition Number_of_magnitude :: "int \<Rightarrow> int" where
  "Number_of_magnitude n =
     (let k = ulp_exp n; q = n div 2 ^ k; r = n mod 2 ^ k
      in if 2 * r > 2 ^ k \<or> (2 * r = 2 ^ k \<and> odd q) then (q + 1) * 2 ^ k else q * 2 ^ k)"

definition Number_of_int :: "int \<Rightarrow> int" where
  "Number_of_int i = (if i < 0 then - Number_of_magnitude (- i) else Number_of_magnitude i)"

definition Number_add :: "int \<Rightarrow> int \<Rightarrow> int" where
  "Number_add a b = Number_of_int (a + b)"

section \<open>Completion and scoring (POST /api/tasks/:id/complete)\<close>

text \<open>JavaScript truthiness of an optional string: undefined and the empty string are falsy.\<close>

fun truthy :: "string option \<Rightarrow> bool" where
  "truthy None = False"
| "truthy (Some v) = (v \<noteq> [])"

text \<open>
  \<open>Array.prototype.find\<close> returns a reference to the first element that satisfies the
  predicate; the reference is the element's index, so that the later \<open>member.score += 1\<close>
  is an update of the array at that index.
\<close>

fun find_ref :: "('a \<Rightarrow> bool) \<Rightarrow> 'a list \<Rightarrow> nat option" where
  "find_ref P [] = None"
| "find_ref P (x # xs) = (if P x then Some 0 else map_option Suc (find_ref P xs))"

record complete_result =
  r_id :: oid
  r_completed :: bool
  r_completedAt :: "instant option"
  memberScore :: "int option"

definition complete_handler ::
  "instant \<Rightarrow> family \<Rightarrow> oid \<Rightarrow> instant option \<Rightarrow> store \<Rightarrow> complete_result reply \<times> store" where
  "complete_handler now fam i date s =
     (case findOne_task i (fid fam) s of
        None \<Rightarrow> (Err 404, s)
      | Some task \<Rightarrow>
          if completed task then
            (Ok \<lparr>r_id = tid task, r_completed = True, r_completedAt = completedAt task,
                 memberScore = None\<rparr>, s)
          else
            let task' = task\<lparr>completed := True,
                             completedAt := Some (case date of Some d \<Rightarrow> d | None \<Rightarrow> now)\<rparr>;
                s1 = save_task task' s
            in (case (if truthy (assignedTo task')
                      then find_ref (\<lambda>m. Some (name m) = assignedTo task') (members fam)
                      else None) of
                  None \<Rightarrow>
                    (Ok \<lparr>r_id = tid task', r_completed = completed task',
                         r_completedAt = completedAt task', memberScore = None\<rparr>, s1)
                | Some k \<Rightarrow>
                    let m' = (members fam ! k)\<lparr>score := Number_add (score (members fam ! k)) 1\<rparr>;
                        fam' = fam\<lparr>members := (members fam)[k := m']\<rparr>;
                        s2 = save_family fam' s1
                    in (Ok \<lparr>r_id = tid task', r_completed = completed task',
                            r_completedAt = completedAt task', memberScore = Some (score m')\<rparr>,
                        s2)))"

definition post_complete ::
  "instant \<Rightarrow> oid \<Rightarrow> oid \<Rightarrow> instant option \<Rightarrow> store \<Rightarrow> complete_result reply \<times> store" where
  "post_complete now c i date s =
     (case authenticate c s of
        None \<Rightarrow> (Err 401, s)
      | Some fam \<Rightarrow> complete_handler now fam i date s)"

section \<open>The other handlers that write\<close>

text \<open>
  A request body is a JSON object. Its model holds the properties the route's schema
  declares, an optional one as an \<open>option\<close>, and, where the handler passes the object on
  whole, the further properties that reach a document, since no schema forbids additional
  properties: the \<open>score\<close> of a member at registration, and at the update route the fields
  \<open>completedAt\<close> (null or a date), \<open>family\<close>, \<open>createdAt\<close> and \<open>comments\<close>, which
  \<open>Object.assign\<close> copies like the declared ones. Values are of the type their field is
  cast to. Registration stores a credential hash as well, which no handler modelled here
  reads.

  \<open>save\<close> validates the document: a string that its schema requires must not be empty. A
  document loaded from the store passed that validation when it was written, so the
  validation is modelled in the handlers that write strings of the request into a
  document. When it fails \<open>save\<close> raises, the route answers 500 and nothing is stored.
\<close>

definition valid_comment :: "comment \<Rightarrow> bool" where
  "valid_comment cm = (cmember cm \<noteq> [] \<and> ctext cm \<noteq> [])"

definition valid_task :: "task \<Rightarrow> bool" where
  "valid_task t = (title t \<noteq> [] \<and> list_all valid_comment (comments t))"

definition valid_member :: "member \<Rightarrow> bool" where
  "valid_member m = (name m \<noteq> [])"

definition valid_family :: "family \<Rightarrow> bool" where
  "valid_family f = (fname f \<noteq> [] \<and> fcode f \<noteq> [] \<and> list_all valid_member (members f))"

record task_view =
  v_id :: oid
  v_title :: string
  v_priority :: priority
  v_assignedTo :: "string option"
  v_dueDate :: "instant option"
  v_completed :: bool

definition view :: "task \<Rightarrow> task_view" where
  "view t = \<lparr>v_id = tid t, v_title = title t, v_priority = priority t,
              v_assignedTo = assignedTo t, v_dueDate = dueDate t, v_completed = completed t\<rparr>"

record member_body =
  mb_name :: string
  mb_score :: "int option"

text \<open>\<open>new Family({ name, code, members })\<close>: a member without score gets the default 0.\<close>

definition new_member :: "member_body \<Rightarrow> member" where
  "new_member b =
     \<lparr>name = mb_name b, score = (case mb_score b of None \<Rightarrow> 0 | Some v \<Rightarrow> Number_of_int v)\<rparr>"

definition post_register ::
  "string \<Rightarrow> string \<Rightarrow> member_body list \<Rightarrow> store \<Rightarrow> oid reply \<times> store" where
  "post_register nm cd ms s =
     (case find (\<lambda>f. fcode f = cd) (Families s) of
        Some existing \<Rightarrow> (Err 409, s)
      | None \<Rightarrow>
          let fam = \<lparr>fid = next_oid s, fname = nm, fcode = cd, members = map new_member ms\<rparr>
          in if valid_family fam then (Ok (fid fam), insert_family fam s) else (Err 500, s))"

definition post_member :: "oid \<Rightarrow> string \<Rightarrow> store \<Rightarrow> member reply \<times> store" where
  "post_member c nm s =
     (case authenticate c s of
        None \<Rightarrow> (Err 401, s)
      | Some fam \<Rightarrow>
          let fam' = fam\<lparr>members := members fam @ [\<lparr>name = nm, score = 0\<rparr>]\<rparr>
          in if valid_family fam' then (Ok (last (members fam')), save_family fam' s)
             else (Err 500, s))"

record task_body =
  b_title :: string
  b_description :: "string option"
  b_priority :: "priority option"
  b_dueDate :: "instant option"
  b_assignedTo :: "string option"

definition post_task :: "instant \<Rightarrow> oid \<Rightarrow> task_body \<Rightarrow> store \<Rightarrow> task_view reply \<times> store" where
  "post_task now c b s =
     (case authenticate c s of
        None \<Rightarrow> (Err 401, s)
      | Some fam \<Rightarrow>
          let t = \<lparr>tid = next_oid s, tfamily = fid fam, title = b_title b,
                   description = b_description b,
                   priority = (case b_priority b of None \<Rightarrow> Medium | Some p \<Rightarrow> p),
                   assignedTo = b_assignedTo b, dueDate = b_dueDate b, completed = False,
                   completedAt = None, comments = [], createdAt = now\<rparr>
          in if valid_task t then (Ok (view t), insert_task t s) else (Err 500, s))"

text \<open>
  The body of an update: the six declared properties, then the four further fields of a
  task. \<open>u_completedAt\<close> is \<open>None\<close> when the body has no such property, and \<open>Some None\<close>
  when its value is cast to null (null, or the empty string). A comment of the body gets
  the default \<open>createdAt\<close>, the clock's instant, unless it brings one.
\<close>

record comment_body =
  cb_member :: string
  cb_text :: string
  cb_createdAt :: "instant option"

definition new_comment :: "instant \<Rightarrow> comment_body \<Rightarrow> comment" where
  "new_comment now b =
     \<lparr>cmember = cb_member b, ctext = cb_text b,
      ccreatedAt = (case cb_createdAt b of None \<Rightarrow> now | Some d \<Rightarrow> d)\<rparr>"

record update_body =
  u_title :: "string option"
  u_description :: "string option"
  u_priority :: "priority option"
  u_dueDate :: "instant option"
  u_assignedTo :: "string option"
  u_completed :: "bool option"
  u_completedAt :: "instant option option"
  u_family :: "oid option"
  u_createdAt :: "instant option"
  u_comments :: "comment_body list option"

text \<open>\<open>Object.assign(task, update)\<close>: every property present in the body overwrites the task's.\<close>

definition assign_update :: "instant \<Rightarrow> task \<Rightarrow> update_body \<Rightarrow> task" where
  "assign_update now t u =
     t\<lparr>title := (case u_title u of None \<Rightarrow> title t | Some v \<Rightarrow> v),
       description := (case u_description u of None \<Rightarrow> description t | Some v \<Rightarrow> Some v),
       priority := (case u_priority u of None \<Rightarrow> priority t | Some v \<Rightarrow> v),
       dueDate := (case u_dueDate u of None \<Rightarrow> dueDate t | Some v \<Rightarrow> Some v),
       assignedTo := (case u_assignedTo u of None \<Rightarrow> assignedTo t | Some v \<Rightarrow> Some v),
       completed := (case u_completed u of None \<Rightarrow> completed t | Some v \<Rightarrow> v),
       completedAt := (case u_completedAt u of None \<Rightarrow> completedAt t | Some v \<Rightarrow> v),
       tfamily := (case u_family u of None \<Rightarrow> tfamily t | Some v \<Rightarrow> v),
       createdAt := (case u_createdAt u of None \<Rightarrow> createdAt t | Some v \<Rightarrow> v),
       comments := (case u_comments u of None \<Rightarrow> comments t
                    | Some v \<Rightarrow> map (new_comment now) v)\<rparr>"

definition update_handler ::
  "instant \<Rightarrow> family \<Rightarrow> oid \<Rightarrow> update_body \<Rightarrow> store \<Rightarrow> task_view reply \<times> store" where
  "update_handler now fam i update s =
     (case findOne_task i (fid fam) s of
        None \<Rightarrow> (Err 404, s)
      | Some task \<Rightarrow>
          let task1 = assign_update now task update;
              task2 = (if u_completed update = Some True \<and> completedAt task1 = None
                       then task1\<lparr>completedAt := Some now\<rparr> else task1)
          in if valid_task task2 then (Ok (view task2), save_task task2 s) else (Err 500, s))"

definition put_task ::
  "instant \<Rightarrow> oid \<Rightarrow> oid \<Rightarrow> update_body \<Rightarrow> store \<Rightarrow> task_view reply \<times> store" where
  "put_task now c i update s =
     (case authenticate c s of
        None \<Rightarrow> (Err 401, s)
      | Some fam \<Rightarrow> update_handler now fam i update s)"

definition delete_task :: "oid \<Rightarrow> oid \<Rightarrow> store \<Rightarrow> unit reply \<times> store" where
  "delete_task c i s =
     (case authenticate c s of
        None \<Rightarrow> (Err 401, s)
      | Some fam \<Rightarrow>
          (case deleteOne_task i (fid fam) s of
             (deletedCount, s1) \<Rightarrow> if deletedCount = 0 then (Err 404, s1) else (Ok (), s1)))"

definition post_assign :: "oid \<Rightarrow> oid \<Rightarrow> string \<Rightarrow> store \<Rightarrow> (oid \<times> string option) reply \<times> store" where
  "post_assign c i mem s =
     (case authenticate c s of
        None \<Rightarrow> (Err 401, s)
      | Some fam \<Rightarrow>
          (case findOne_task i (fid fam) s of
             None \<Rightarrow> (Err 404, s)
           | Some task \<Rightarrow>
               if \<not> list_ex (\<lambda>m. name m = mem) (members fam) then (Err 404, s)
               else let task' = task\<lparr>assignedTo := Some mem\<rparr>
                    in (Ok (tid task', assignedTo task'), save_task task' s)))"

definition post_comment ::
  "instant \<Rightarrow> oid \<Rightarrow> oid \<Rightarrow> string \<Rightarrow> string \<Rightarrow> store \<Rightarrow> (oid \<times> comment list) reply \<times> store" where
  "post_comment now c i mem txt s =
     (case authenticate c s of
        None \<Rightarrow> (Err 401, s)
      | Some fam \<Rightarrow>
          (case findOne_task i (fid fam) s of
             None \<Rightarrow> (Err 404, s)
           | Some task \<Rightarrow>
               let task' = task\<lparr>comments := comments task @
                                  [\<lparr>cmember = mem, ctext = txt, ccreatedAt = now\<rparr>]\<rparr>
               in if valid_task task' then (Ok (tid task', comments task'), save_task task' s)
                  else (Err 500, s)))"

subsection \<open>Sequences of requests\<close>

datatype request =
    Register string string "member_body list"
  | PostMember string
  | PostTask task_body
  | PutTask oid update_body
  | DeleteTask oid
  | PostAssign oid string
  | PostComplete oid "instant option"
  | PostComment oid string string

text \<open>
  One request is served at the clock reading \<open>now\<close> for the caller \<open>c\<close> of its token (which
  registration does not look at); the reply is dropped, the store is kept.
\<close>

fun serve :: "instant \<times> oid \<times> request \<Rightarrow> store \<Rightarrow> store" where
  "serve (now, c, Register nm cd names) s = snd (post_register nm cd names s)"
| "serve (now, c, PostMember nm) s = snd (post_member c nm s)"
| "serve (now, c, PostTask b) s = snd (post_task now c b s)"
| "serve (now, c, PutTask i u) s = snd (put_task now c i u s)"
| "serve (now, c, DeleteTask i) s = snd (delete_task c i s)"
| "serve (now, c, PostAssign i mem) s = snd (post_assign c i mem s)"
| "serve (now, c, PostComplete i date) s = snd (post_complete now c i date s)"
| "serve (now, c, PostComment i mem txt) s = snd (post_comment now c i mem txt s)"

definition serve_all :: "(instant \<times> oid \<times> request) list \<Rightarrow> store \<Rightarrow> store" where
  "serve_all rs s = fold serve rs s"

definition empty_store :: store where
  "empty_store = \<lparr>Tasks = [], Families = [], next_oid = 0, writes = []\<rparr>"

section \<open>Statistics per member (GET /api/stats/members)\<close>

record member_stats =
  st_member :: string
  totalTasks :: nat
  completedTasks :: nat
  st_score :: int

definition stats_members_handler :: "family \<Rightarrow> store \<Rightarrow> member_stats list" where
  "stats_members_handler fam s =
     (let tasks = find_tasks (fid fam) s
      in map (\<lambda>m.
           let memberTasks = filter (\<lambda>t. assignedTo t = Some (name m)) tasks;
               completed' = filter completed memberTasks
           in \<lparr>st_member = name m, totalTasks = length memberTasks,
                completedTasks = length completed', st_score = score m\<rparr>)
         (members fam))"

definition get_stats_members :: "oid \<Rightarrow> store \<Rightarrow> member_stats list reply" where
  "get_stats_members c s =
     (case authenticate c s of
        None \<Rightarrow> Err 401
      | Some fam \<Rightarrow> Ok (stats_members_handler fam s))"

section \<open>Overdue alerts (GET /api/alerts/overdue)\<close>

text \<open>
  The query \<open>{family, completed: false, dueDate: {$lt: now}}\<close>: a comparison operator
  matches no document whose field is missing.
\<close>

definition overdue_query :: "oid \<Rightarrow> instant \<Rightarrow> store \<Rightarrow> task list" where
  "overdue_query f now s =
     filter (\<lambda>t. tfamily t = f \<and> completed t = False \<and>
                 (case dueDate t of None \<Rightarrow> False | Some d \<Rightarrow> d < now))
       (Tasks s)"

record alert =
  a_id :: oid
  a_title :: string
  a_assignedTo :: "string option"
  a_dueDate :: "instant option"

definition alert_of :: "task \<Rightarrow> alert" where
  "alert_of t = \<lparr>a_id = tid t, a_title = title t, a_assignedTo = assignedTo t,
                  a_dueDate = dueDate t\<rparr>"

definition overdue_handler :: "instant \<Rightarrow> family \<Rightarrow> store \<Rightarrow> alert list" where
  "overdue_handler now fam s = map alert_of (overdue_query (fid fam) now s)"

definition get_alerts_overdue :: "instant \<Rightarrow> oid \<Rightarrow> store \<Rightarrow> alert list reply" where
  "get_alerts_overdue now c s =
     (case authenticate c s of
        None \<Rightarrow> Err 401
      | Some fam \<Rightarrow> Ok (overdue_handler now fam s))"

section \<open>JavaScript dates\<close>

text \<open>
  The time-value functions of ECMAScript (Day, DaysInYear, DayFromYear, TimeFromYear,
  YearFromTime, InLeapYear, MonthFromTime, WeekDay, LocalTime, UTC), on integers: \<open>div\<close>
  is the floor and \<open>mod\<close> is never negative, as there. The server's time zone is a fixed
  offset \<open>tza\<close> from UTC in milliseconds (no daylight saving). A stored \<open>createdAt\<close> is
  always a valid date, so \<open>new Date(t.createdAt)\<close> is its time value.
\<close>

definition msPerDay :: int where
  "msPerDay = 86400000"

definition Day :: "instant \<Rightarrow> int" where
  "Day t = t div msPerDay"

definition DaysInYear :: "int \<Rightarrow> int" where
  "DaysInYear y =
     (if y mod 4 \<noteq> 0 then 365 else if y mod 100 \<noteq> 0 then 366
      else if y mod 400 \<noteq> 0 then 365 else 366)"

definition DayFromYear :: "int \<Rightarrow> int" where
  "DayFromYear y =
     365 * (y - 1970) + (y - 1969) div 4 - (y - 1901) div 100 + (y - 1601) div 400"

definition TimeFromYear :: "int \<Rightarrow> instant" where
  "TimeFromYear y = msPerDay * DayFromYear y"

lemma div_succ:
  fixes a k :: int
  assumes "0 < k"
  shows "(a + 1) div k = a div k + (if (a + 1) mod k = 0 then 1 else 0)"
proof -
  let ?q = "a div k" and ?r = "a mod k"
  have a: "a = k * ?q + ?r" by simp
  have r: "0 \<le> ?r" "?r < k" using assms by simp_all
  show ?thesis
  proof (cases "?r + 1 < k")
    case True
    have e: "a + 1 = k * ?q + (?r + 1)" using a by linarith
    have "(a + 1) div k = ?q"
      by (rule int_div_pos_eq[OF e]) (use r True in auto)
    moreover have "(a + 1) mod k = ?r + 1"
      by (rule int_mod_pos_eq[OF e]) (use r True in auto)
    ultimately show ?thesis using r by simp
  next
    case False
    with r have rk: "?r + 1 = k" by linarith
    have "k * (?q + 1) + 0 = k * ?q + (?r + 1)"
      using rk by (simp add: algebra_simps)
    also have "\<dots> = a + 1" by simp
    finally have e: "a + 1 = k * (?q + 1) + 0" by simp
    have "(a + 1) div k = ?q + 1"
      by (rule int_div_pos_eq[OF e]) (use assms in auto)
    moreover have "(a + 1) mod k = 0"
      by (rule int_mod_pos_eq[OF e]) (use assms in auto)
    ultimately show ?thesis by simp
  qed
qed

lemma mod_shift:
  fixes y c k :: int
  assumes "k dvd c"
  shows "(y - c) mod k = 0 \<longleftrightarrow> y mod k = 0"
proof -
  have "k dvd y - c \<longleftrightarrow> k dvd y"
    using assms by (simp add: dvd_diff_left_iff)
  then show ?thesis by (simp add: mod_eq_0_iff_dvd)
qed

lemma mod4_shift: "((y::int) - 1968) mod 4 = 0 \<longleftrightarrow> y mod 4 = 0" by (rule mod_shift) simp
lemma mod100_shift: "((y::int) - 1900) mod 100 = 0 \<longleftrightarrow> y mod 100 = 0" by (rule mod_shift) simp
lemma mod400_shift: "((y::int) - 1600) mod 400 = 0 \<longleftrightarrow> y mod 400 = 0" by (rule mod_shift) simp
lemma mod100_mod4: "(y::int) mod 100 = 0 \<Longrightarrow> y mod 4 = 0"
proof -
  assume "y mod 100 = 0"
  then have "100 dvd y" by (simp add: mod_eq_0_iff_dvd)
  moreover have "(4::int) dvd 100" by simp
  ultimately have "4 dvd y" by (rule dvd_trans[rotated])
  then show ?thesis by (simp add: mod_eq_0_iff_dvd)
qed
lemma mod400_mod100: "(y::int) mod 400 = 0 \<Longrightarrow> y mod 100 = 0"
proof -
  assume "y mod 400 = 0"
  then have "400 dvd y" by (simp add: mod_eq_0_iff_dvd)
  moreover have "(100::int) dvd 400" by simp
  ultimately have "100 dvd y" by (rule dvd_trans[rotated])
  then show ?thesis by (simp add: mod_eq_0_iff_dvd)
qed

lemma DayFromYear_step: "DayFromYear (y + 1) = DayFromYear y + DaysInYear y"
proof -
  have a: "(y + 1 - 1969) div 4 = (y - 1969) div 4 + (if y mod 4 = 0 then 1 else 0)"
    using div_succ[of 4 "y - 1969"] mod4_shift[of y] by (simp add: algebra_simps)
  have b: "(y + 1 - 1901) div 100 = (y - 1901) div 100 + (if y mod 100 = 0 then 1 else 0)"
    using div_succ[of 100 "y - 1901"] mod100_shift[of y] by (simp add: algebra_simps)
  have c: "(y + 1 - 1601) div 400 = (y - 1601) div 400 + (if y mod 400 = 0 then 1 else 0)"
    using div_succ[of 400 "y - 1601"] mod400_shift[of y] by (simp add: algebra_simps)
  show ?thesis
    unfolding DayFromYear_def DaysInYear_def a b c
    using mod100_mod4[of y] mod400_mod100[of y] by auto
qed


lemma TimeFromYear_less: "TimeFromYear y < TimeFromYear (y + 1)"
  by (simp add: TimeFromYear_def msPerDay_def DayFromYear_step DaysInYear_def)

text \<open>
  YearFromTime is the largest year whose TimeFromYear is at most \<open>t\<close>: a search down, then
  up, from an estimate.
\<close>

function year_down :: "int \<Rightarrow> instant \<Rightarrow> int" where
  "year_down y t = (if t < TimeFromYear y then year_down (y - 1) t else y)"
  by pat_completeness auto
termination
proof (relation "measure (\<lambda>(y, t). nat (TimeFromYear y - t))")
  show "wf (measure (\<lambda>(y, t). nat (TimeFromYear y - t)))" by simp
next
  fix y t :: int
  assume "t < TimeFromYear y"
  with TimeFromYear_less[of "y - 1"]
  show "((y - 1, t), (y, t)) \<in> measure (\<lambda>(y, t). nat (TimeFromYear y - t))"
    by simp
qed

function year_up :: "int \<Rightarrow> instant \<Rightarrow> int" where
  "year_up y t = (if TimeFromYear (y + 1) \<le> t then year_up (y + 1) t else y)"
  by pat_completeness auto
termination
proof (relation "measure (\<lambda>(y, t). nat (t + 1 - TimeFromYear (y + 1)))")
  show "wf (measure (\<lambda>(y, t). nat (t + 1 - TimeFromYear (y + 1))))" by simp
next
  fix y t :: int
  assume "TimeFromYear (y + 1) \<le> t"
  with TimeFromYear_less[of "y + 1"]
  show "((y + 1, t), (y, t)) \<in> measure (\<lambda>(y, t). nat (t + 1 - TimeFromYear (y + 1)))"
    by simp
qed

declare year_down.simps [simp del] year_up.simps [simp del]

definition YearFromTime :: "instant \<Rightarrow> int" where
  "YearFromTime t = year_up (year_down (1970 + t div (365 * msPerDay)) t) t"

definition InLeapYear :: "instant \<Rightarrow> int" where
  "InLeapYear t = (if DaysInYear (YearFromTime t) = 366 then 1 else 0)"

definition DayWithinYear :: "instant \<Rightarrow> int" where
  "DayWithinYear t = Day t - DayFromYear (YearFromTime t)"

definition MonthFromTime :: "instant \<Rightarrow> int" where
  "MonthFromTime t =
     (let d = DayWithinYear t; l = InLeapYear t
      in if d < 31 then 0
         else if d < 59 + l then 1
         else if d < 90 + l then 2
         else if d < 120 + l then 3
         else if d < 151 + l then 4
         else if d < 181 + l then 5
         else if d < 212 + l then 6
         else if d < 243 + l then 7
         else if d < 273 + l then 8
         else if d < 304 + l then 9
         else if d < 334 + l then 10
         else 11)"

definition WeekDay :: "instant \<Rightarrow> int" where
  "WeekDay t = (Day t + 4) mod 7"

definition LocalTime :: "int \<Rightarrow> instant \<Rightarrow> int" where
  "LocalTime tza t = t + tza"

definition UTC :: "int \<Rightarrow> int \<Rightarrow> instant" where
  "UTC tza t = t - tza"

definition getFullYear :: "int \<Rightarrow> instant \<Rightarrow> int" where
  "getFullYear tza date = YearFromTime (LocalTime tza date)"

definition getMonth :: "int \<Rightarrow> instant \<Rightarrow> int" where
  "getMonth tza date = MonthFromTime (LocalTime tza date)"

definition getDay :: "int \<Rightarrow> instant \<Rightarrow> int" where
  "getDay tza date = WeekDay (LocalTime tza date)"

text \<open>
  \<open>new Date(year, 0, 1)\<close>: local midnight of the first of January; the constructor reads a
  year from 0 to 99 as 1900 + year.
\<close>

definition new_Date_Jan1 :: "int \<Rightarrow> int \<Rightarrow> instant" where
  "new_Date_Jan1 tza year =
     (let yr = (if 0 \<le> year \<and> year \<le> 99 then 1900 + year else year)
      in UTC tza (TimeFromYear yr))"

subsection \<open>Strings of numbers\<close>

definition digit_char :: "nat \<Rightarrow> char" where
  "digit_char d = ''0123456789'' ! d"

function String_nat :: "nat \<Rightarrow> string" where
  "String_nat n = (if n < 10 then [digit_char n] else String_nat (n div 10) @ [digit_char (n mod 10)])"
  by pat_completeness auto
termination
  by (relation "measure (\<lambda>n. n)") auto

declare String_nat.simps [simp del]

definition String_int :: "int \<Rightarrow> string" where
  "String_int i = (if i < 0 then CHR ''-'' # String_nat (nat (- i)) else String_nat (nat i))"

definition padStart :: "nat \<Rightarrow> char \<Rightarrow> string \<Rightarrow> string" where
  "padStart n c str = replicate (n - length str) c @ str"

text \<open>The shapes \<open>MM\<close>, \<open>ww\<close> and \<open>YYYY\<close> of the specification: two and four decimal digits.\<close>

definition two_digits :: "nat \<Rightarrow> string" where
  "two_digits n = [digit_char (n div 10), digit_char (n mod 10)]"

definition four_digits :: "nat \<Rightarrow> string" where
  "four_digits n = [digit_char (n div 1000), digit_char (n div 100 mod 10),
                    digit_char (n div 10 mod 10), digit_char (n mod 10)]"

section \<open>History (GET /api/stats/history)\<close>

datatype period = Week | Month

text \<open>
  The week number is \<open>Math.ceil(((date - firstDayOfYear) / 86400000 + firstDayOfYear.getDay()
  + 1) / 7)\<close>. It is computed here in exact rational arithmetic. The doubles of the source
  give the same integer: the difference of two time values is an integer number of
  milliseconds, so the exact quotient is a multiple of \<open>1 / 604800000\<close>; when it is an
  integer every intermediate double is exact, and otherwise it lies further from the next
  integer than the rounding of three operations can move it.
\<close>

definition weekNumber :: "int \<Rightarrow> instant \<Rightarrow> int" where
  "weekNumber tza date =
     (let firstDayOfYear = new_Date_Jan1 tza (getFullYear tza date)
      in \<lceil>(rat_of_int (date - firstDayOfYear) / 86400000
            + rat_of_int (getDay tza firstDayOfYear) + 1) / 7\<rceil>)"

definition bucket_key :: "int \<Rightarrow> period \<Rightarrow> instant \<Rightarrow> string" where
  "bucket_key tza p date =
     (if p = Month then
        String_int (getFullYear tza date) @ ''-'' @
          padStart 2 CHR ''0'' (String_int (getMonth tza date + 1))
      else
        String_int (getFullYear tza date) @ ''-W'' @
          padStart 2 CHR ''0'' (String_int (weekNumber tza date)))"

record bucket =
  b_period :: string
  b_total :: nat
  b_completed :: nat

text \<open>A JavaScript \<open>Map\<close>: keys with their values, in insertion order.\<close>

type_synonym bucket_map = "(string \<times> bucket) list"

definition map_has :: "bucket_map \<Rightarrow> string \<Rightarrow> bool" where
  "map_has m k = (map_of m k \<noteq> None)"

definition map_get :: "bucket_map \<Rightarrow> string \<Rightarrow> bucket option" where
  "map_get m k = map_of m k"

definition map_set :: "bucket_map \<Rightarrow> string \<Rightarrow> bucket \<Rightarrow> bucket_map" where
  "map_set m k v =
     (if map_has m k then map (\<lambda>(k', v'). if k' = k then (k', v) else (k', v')) m
      else m @ [(k, v)])"

text \<open>
  One round of the \<open>forEach\<close>. The entry fetched from the map is the object stored in it,
  so the two increments are a \<open>set\<close> of the updated entry; \<open>get\<close> cannot miss, the key was
  set just before.
\<close>

definition history_step :: "int \<Rightarrow> period \<Rightarrow> task \<Rightarrow> bucket_map \<Rightarrow> bucket_map" where
  "history_step tza p t m =
     (let key = bucket_key tza p (createdAt t);
          m1 = (if \<not> map_has m key
                then map_set m key \<lparr>b_period = key, b_total = 0, b_completed = 0\<rparr> else m)
      in case map_get m1 key of
           None \<Rightarrow> m1
         | Some entry \<Rightarrow>
             map_set m1 key
               (entry\<lparr>b_total := b_total entry + 1,
                      b_completed := (if completed t then b_completed entry + 1
                                      else b_completed entry)\<rparr>))"

text \<open>
  \<open>Array.from(map.values()).sort((a, b) => a.period.localeCompare(b.period))\<close>. The keys
  are made of digits, \<open>-\<close> and \<open>W\<close>, which the collation of \<open>localeCompare\<close> orders as
  their character codes do, so the comparison is the lexicographic order of strings; the
  sort is stable.
\<close>

definition history_handler :: "int \<Rightarrow> period \<Rightarrow> family \<Rightarrow> store \<Rightarrow> bucket list" where
  "history_handler tza p fam s =
     (let tasks = find_tasks (fid fam) s;
          m = fold (history_step tza p) tasks []
      in sort_key b_period (map snd m))"

definition get_stats_history :: "int \<Rightarrow> oid \<Rightarrow> period option \<Rightarrow> store \<Rightarrow> bucket list reply" where
  "get_stats_history tza c q s =
     (case authenticate c s of
        None \<Rightarrow> Err 401
      | Some fam \<Rightarrow>
          Ok (history_handler tza (case q of None \<Rightarrow> Week | Some p \<Rightarrow> p) fam s))"

section \<open>Completion flag and completion timestamp\<close>

text \<open>
  Two predicates on a task: a completed task has its \<open>completedAt\<close>; and the stronger one in
  the words of the specification, \<open>completedAt\<close> is set if and only if \<open>completed\<close> is true.
\<close>

definition stamped :: "task \<Rightarrow> bool" where
  "stamped t = (\<not> completed t \<or> completedAt t \<noteq> None)"

definition completedAt_iff_completed :: "task \<Rightarrow> bool" where
  "completedAt_iff_completed t = (completedAt t \<noteq> None \<longleftrightarrow> completed t)"

text \<open>The requests that can take a \<open>completedAt\<close> away: an update whose body has it null.\<close>

fun clears_completedAt :: "request \<Rightarrow> bool" where
  "clears_completedAt (PutTask i u) = (u_completedAt u = Some None)"
| "clears_completedAt r = False"

section \<open>Example data\<close>

text \<open>
  Two families and their tasks: Alice and Bob with no points yet, and a family in which two
  members are both called Alice.
\<close>

definition alice_bob :: family where
  "alice_bob = \<lparr>fid = 1, fname = ''F'', fcode = ''f-code'',
                 members = [\<lparr>name = ''Alice'', score = 0\<rparr>, \<lparr>name = ''Bob'', score = 0\<rparr>]\<rparr>"

definition twins :: family where
  "twins = \<lparr>fid = 2, fname = ''G'', fcode = ''g-code'',
             members = [\<lparr>name = ''Bob'', score = 5\<rparr>, \<lparr>name = ''Alice'', score = 3\<rparr>,
                        \<lparr>name = ''Alice'', score = 7\<rparr>]\<rparr>"

definition chore :: "oid \<Rightarrow> oid \<Rightarrow> string option \<Rightarrow> task" where
  "chore i f a = \<lparr>tid = i, tfamily = f, title = ''T'', description = None, priority = Medium,
                  assignedTo = a, dueDate = None, completed = False, completedAt = None,
                  comments = [], createdAt = 0\<rparr>"

definition demo_store :: store where
  "demo_store = \<lparr>Tasks = [chore 7 1 (Some ''Alice''), chore 8 1 None, chore 9 1 (Some ''Carol''),
                           chore 10 2 (Some ''Alice'')],
                  Families = [alice_bob, twins], next_oid = 11, writes = []\<rparr>"

text \<open>
  The store after Alice's task was completed at 1000; an update body that sets nothing; and
  a run from the empty store in which a family registers, creates a task for Alice,
  completes it and then sets \<open>completed\<close> to false through the update route.
\<close>

definition finished_store :: store where
  "finished_store =
     demo_store\<lparr>Tasks := [(chore 7 1 (Some ''Alice''))\<lparr>completed := True, completedAt := Some 1000\<rparr>,
                           chore 8 1 None]\<rparr>"

definition no_update :: update_body where
  "no_update = \<lparr>u_title = None, u_description = None, u_priority = None, u_dueDate = None,
                 u_assignedTo = None, u_completed = None, u_completedAt = None,
                 u_family = None, u_createdAt = None, u_comments = None\<rparr>"

definition reopening :: "(instant \<times> oid \<times> request) list" where
  "reopening =
     [(10, 0, Register ''F'' ''f-code'' [\<lparr>mb_name = ''Alice'', mb_score = None\<rparr>]),
      (20, 0, PostTask \<lparr>b_title = ''T'', b_description = None, b_priority = None,
                        b_dueDate = None, b_assignedTo = Some ''Alice''\<rparr>),
      (30, 0, PostComplete 1 None),
      (40, 0, PutTask 1 (no_update\<lparr>u_completed := Some False\<rparr>))]"

text \<open>
  Further runs. From the empty store: a family registers Alice with a score of \<open>2^53\<close> and
  creates a task for her; the same with two members called Alice, the first with \<open>2^53\<close>;
  a family completes its task and then sends an update whose \<open>completedAt\<close> is null. On the
  example store: the family of Alice and Bob completes task 7, sets its \<open>completed\<close> back
  to false, and marks task 8 completed through the update route.
\<close>

definition alice_task :: task_body where
  "alice_task = \<lparr>b_title = ''T'', b_description = None, b_priority = None, b_dueDate = None,
                  b_assignedTo = Some ''Alice''\<rparr>"

definition rich_start :: "(instant \<times> oid \<times> request) list" where
  "rich_start =
     [(10, 0, Register ''H'' ''h-code'' [\<lparr>mb_name = ''Alice'', mb_score = Some 9007199254740992\<rparr>]),
      (20, 0, PostTask alice_task)]"

definition rich_twins_start :: "(instant \<times> oid \<times> request) list" where
  "rich_twins_start =
     [(10, 0, Register ''H'' ''h-code''
                [\<lparr>mb_name = ''Bob'', mb_score = Some 5\<rparr>,
                 \<lparr>mb_name = ''Alice'', mb_score = Some 9007199254740992\<rparr>,
                 \<lparr>mb_name = ''Alice'', mb_score = Some 7\<rparr>]),
      (20, 0, PostTask alice_task)]"

definition clearing :: "(instant \<times> oid \<times> request) list" where
  "clearing =
     [(10, 0, Register ''F'' ''f-code'' [\<lparr>mb_name = ''Alice'', mb_score = None\<rparr>]),
      (20, 0, PostTask alice_task),
      (30, 0, PostComplete 1 None),
      (40, 0, PutTask 1 (no_update\<lparr>u_completedAt := Some None\<rparr>))]"

definition housework :: "(instant \<times> oid \<times> request) list" where
  "housework =
     [(30, 1, PostComplete 7 None),
      (40, 1, PutTask 7 (no_update\<lparr>u_completed := Some False\<rparr>)),
      (50, 1, PutTask 8 (no_update\<lparr>u_completed := Some True\<rparr>))]"

text \<open>
  A store with due dates: task 8 was due at 500, task 7 is due at 5000, task 9 has no due
  date, task 12 was due at 100 and is completed, task 10 belongs to the other family.
\<close>

definition due_store :: store where
  "due_store =
     demo_store\<lparr>Tasks := [(chore 8 1 None)\<lparr>dueDate := Some 500\<rparr>,
                           (chore 7 1 (Some ''Alice''))\<lparr>dueDate := Some 5000\<rparr>,
                           chore 9 1 (Some ''Carol''),
                           (chore 12 1 (Some ''Alice''))\<lparr>dueDate := Some 100, completed := True,
                                                         completedAt := Some 90\<rparr>,
                           (chore 10 2 (Some ''Alice''))\<lparr>dueDate := Some 100\<rparr>]\<rparr>"

text \<open>
  A store whose first family has a task created on 2024-01-02 and a completed one created
  on 2024-01-09, both at midnight UTC.
\<close>

definition history_store :: store where
  "history_store =
     demo_store\<lparr>Tasks := [(chore 7 1 (Some ''Alice''))\<lparr>createdAt := 1704153600000\<rparr>,
                           (chore 8 1 None)\<lparr>createdAt := 1704758400000, completed := True,
                                            completedAt := Some 1704800000000\<rparr>,
                           (chore 10 2 (Some ''Alice''))\<lparr>createdAt := 1704153600000\<rparr>]\<rparr>"

section \<open>Adding one to a score\<close>

lemma Number_of_magnitude_small: "n < 9007199254740992 \<Longrightarrow> Number_of_magnitude n = n"
  by (simp add: Number_of_magnitude_def ulp_exp.simps[of n])

lemma Number_of_magnitude_2_53: "Number_of_magnitude 9007199254740992 = 9007199254740992"
  by (simp add: Number_of_magnitude_def ulp_exp.simps[of "9007199254740992"]
      ulp_exp.simps[of "4503599627370496"])

text \<open>From \<open>-2^53\<close> up to, not including, \<open>2^53\<close> the sum with 1 is exact.\<close>

lemma Number_add_1:
  assumes "- 9007199254740992 \<le> n" and "n < 9007199254740992"
  shows "Number_add n 1 = n + 1"
proof (cases "n + 1 = 9007199254740992")
  case True
  with Number_of_magnitude_2_53 show ?thesis
    by (simp add: Number_add_def Number_of_int_def)
next
  case False
  with assms have "n + 1 < 9007199254740992" and "- (n + 1) < 9007199254740992" by simp_all
  then have "Number_of_magnitude (n + 1) = n + 1" and "Number_of_magnitude (- (n + 1)) = - (n + 1)"
    by (simp_all only: Number_of_magnitude_small)
  then show ?thesis by (simp add: Number_add_def Number_of_int_def)
qed

text \<open>
  Beyond it the sum is rounded: at \<open>2^53\<close> and at \<open>2^54\<close> adding 1 changes nothing, and at
  \<open>2^53 + 2\<close> it adds 2.
\<close>

lemma Number_add_rounds:
  "Number_add 9007199254740992 1 = 9007199254740992 \<and>
   Number_add 18014398509481984 1 = 18014398509481984 \<and>
   Number_add 9007199254740994 1 = 9007199254740996 \<and>
   Number_of_int 9007199254740993 = 9007199254740992"
  by code_simp

section \<open>Properties of the store and of the lookups\<close>

lemma find_ref_Some:
  "find_ref P xs = Some k \<Longrightarrow> k < length xs \<and> P (xs ! k) \<and> (\<forall>j<k. \<not> P (xs ! j))"
proof (induction xs arbitrary: k)
  case Nil
  then show ?case by simp
next
  case (Cons x xs)
  show ?case
  proof (cases "P x")
    case True
    with Cons.prems show ?thesis by simp
  next
    case False
    with Cons.prems obtain k' where k': "find_ref P xs = Some k'" "k = Suc k'"
      by auto
    from Cons.IH[OF k'(1)] False k'(2) show ?thesis
      by (auto simp: less_Suc_eq_0_disj)
  qed
qed

lemma find_ref_None: "find_ref P xs = None \<longleftrightarrow> (\<forall>x\<in>set xs. \<not> P x)"
  by (induction xs) auto

lemma find_ref_first:
  "k < length xs \<Longrightarrow> P (xs ! k) \<Longrightarrow> (\<forall>j<k. \<not> P (xs ! j)) \<Longrightarrow> find_ref P xs = Some k"
proof (induction xs arbitrary: k)
  case Nil
  then show ?case by simp
next
  case (Cons x xs)
  show ?case
  proof (cases k)
    case 0
    with Cons.prems show ?thesis by simp
  next
    case (Suc k')
    with Cons.prems have "\<not> P x" by auto
    moreover from Suc Cons.prems have "find_ref P xs = Some k'"
      by (intro Cons.IH) auto
    ultimately show ?thesis using Suc by simp
  qed
qed

lemma find_replace_task:
  assumes "find (\<lambda>x. tid x = i \<and> tfamily x = f) ts = Some t"
    and "tid t' = tid t" and "tfamily t' = tfamily t"
  shows "find (\<lambda>x. tid x = i \<and> tfamily x = f) (map (\<lambda>x. if tid x = tid t' then t' else x) ts)
         = Some t'"
  using assms by (induction ts) (auto split: if_splits)

lemma find_replace_family:
  assumes "find (\<lambda>x. fid x = c) fs = Some f" and "fid f' = fid f"
  shows "find (\<lambda>x. fid x = c) (map (\<lambda>x. if fid x = fid f' then f' else x) fs) = Some f'"
  using assms by (induction fs) (auto split: if_splits)

lemma authenticate_fid: "authenticate c s = Some fam \<Longrightarrow> fid fam = c"
  unfolding authenticate_def by (auto simp: find_Some_iff)

lemma findOne_save_task:
  assumes "findOne_task i f s = Some t" and "tid t' = tid t" and "tfamily t' = tfamily t"
  shows "findOne_task i f (save_task t' s) = Some t'"
  using find_replace_task[OF assms[unfolded findOne_task_def]]
  by (simp add: findOne_task_def save_task_def)

lemma findOne_save_family: "findOne_task i f (save_family fam s) = findOne_task i f s"
  by (simp add: findOne_task_def save_family_def)

lemma authenticate_save_task: "authenticate c (save_task t s) = authenticate c s"
  by (simp add: authenticate_def save_task_def)

lemma authenticate_save_family:
  assumes "authenticate c s = Some fam" and "fid fam' = fid fam"
  shows "authenticate c (save_family fam' s) = Some fam'"
  using find_replace_family[OF assms[unfolded authenticate_def]]
  by (simp add: authenticate_def save_family_def)

lemma complete_handler_done:
  assumes "findOne_task i (fid fam) s = Some t" and "completed t"
  shows "complete_handler now fam i date s =
           (Ok \<lparr>r_id = tid t, r_completed = True, r_completedAt = completedAt t,
                memberScore = None\<rparr>, s)"
  using assms by (simp add: complete_handler_def)

lemma complete_handler_credit:
  assumes "findOne_task i (fid fam) s = Some t" and "\<not> completed t"
    and "truthy (assignedTo t)"
    and "find_ref (\<lambda>m. Some (name m) = assignedTo t) (members fam) = Some k"
  shows "complete_handler now fam i date s =
           (Ok \<lparr>r_id = tid t, r_completed = True,
                r_completedAt = Some (case date of Some d \<Rightarrow> d | None \<Rightarrow> now),
                memberScore = Some (Number_add (score (members fam ! k)) 1)\<rparr>,
            save_family
              (fam\<lparr>members := (members fam)[k := (members fam ! k)\<lparr>score := Number_add (score (members fam ! k)) 1\<rparr>]\<rparr>)
              (save_task (t\<lparr>completed := True,
                            completedAt := Some (case date of Some d \<Rightarrow> d | None \<Rightarrow> now)\<rparr>) s))"
  using assms by (simp add: complete_handler_def Let_def)

lemma complete_handler_no_credit:
  assumes "findOne_task i (fid fam) s = Some t" and "\<not> completed t"
    and "\<not> truthy (assignedTo t) \<or>
         find_ref (\<lambda>m. Some (name m) = assignedTo t) (members fam) = None"
  shows "complete_handler now fam i date s =
           (Ok \<lparr>r_id = tid t, r_completed = True,
                r_completedAt = Some (case date of Some d \<Rightarrow> d | None \<Rightarrow> now),
                memberScore = None\<rparr>,
            save_task (t\<lparr>completed := True,
                          completedAt := Some (case date of Some d \<Rightarrow> d | None \<Rightarrow> now)\<rparr>) s)"
  using assms by (auto simp add: complete_handler_def Let_def)


lemma demo_auth: "authenticate 1 demo_store = Some alice_bob"
  by (simp add: authenticate_def demo_store_def alice_bob_def twins_def)

lemma demo_task7: "findOne_task 7 (fid alice_bob) demo_store = Some (chore 7 1 (Some ''Alice''))"
  by (simp add: findOne_task_def demo_store_def alice_bob_def chore_def)

lemma demo_task8: "findOne_task 8 (fid alice_bob) demo_store = Some (chore 8 1 None)"
  by (simp add: findOne_task_def demo_store_def alice_bob_def chore_def)

lemma demo_task9: "findOne_task 9 (fid alice_bob) demo_store = Some (chore 9 1 (Some ''Carol''))"
  by (simp add: findOne_task_def demo_store_def alice_bob_def chore_def)

lemma demo_auth2: "authenticate 2 demo_store = Some twins"
  by (simp add: authenticate_def demo_store_def alice_bob_def twins_def)

lemma demo_task10: "findOne_task 10 (fid twins) demo_store = Some (chore 10 2 (Some ''Alice''))"
  by (simp add: findOne_task_def demo_store_def twins_def chore_def)

lemma finished_auth: "authenticate 1 finished_store = Some alice_bob"
  by (simp add: authenticate_def finished_store_def demo_store_def alice_bob_def)

lemma finished_task7:
  "findOne_task 7 (fid alice_bob) finished_store =
     Some ((chore 7 1 (Some ''Alice''))\<lparr>completed := True, completedAt := Some 1000\<rparr>)"
  by (simp add: findOne_task_def finished_store_def demo_store_def alice_bob_def chore_def)

lemma finished_task8: "findOne_task 8 (fid alice_bob) finished_store = Some (chore 8 1 None)"
  by (simp add: findOne_task_def finished_store_def demo_store_def alice_bob_def chore_def)

section \<open>Completion: the first call\<close>

lemma post_complete_credit:
  assumes auth: "authenticate c s = Some fam"
    and task: "findOne_task i (fid fam) s = Some t"
    and op: "\<not> completed t"
    and asg: "assignedTo t = Some n" "n \<noteq> []"
    and k: "find_ref (\<lambda>m. Some (name m) = assignedTo t) (members fam) = Some k"
  shows "post_complete now c i date s =
           (Ok \<lparr>r_id = tid t, r_completed = True,
                r_completedAt = Some (case date of Some d \<Rightarrow> d | None \<Rightarrow> now),
                memberScore = Some (Number_add (score (members fam ! k)) 1)\<rparr>,
            save_family
              (fam\<lparr>members := (members fam)[k := (members fam ! k)\<lparr>score := Number_add (score (members fam ! k)) 1\<rparr>]\<rparr>)
              (save_task (t\<lparr>completed := True,
                            completedAt := Some (case date of Some d \<Rightarrow> d | None \<Rightarrow> now)\<rparr>) s))"
  using complete_handler_credit[OF task op _ k, of now date] auth asg
  by (simp add: post_complete_def)

lemma named_member_ref:
  assumes "n \<in> name ` set ms"
  shows "\<exists>k. find_ref (\<lambda>m. Some (name m) = Some n) ms = Some k"
proof (cases "find_ref (\<lambda>m. Some (name m) = Some n) ms")
  case None
  then have "\<forall>x\<in>set ms. \<not> Some (name x) = Some n"
    by (simp only: find_ref_None)
  with assms show ?thesis by auto
next
  case (Some k)
  then show ?thesis by simp
qed

lemma post_complete_no_credit:
  assumes auth: "authenticate c s = Some fam"
    and task: "findOne_task i (fid fam) s = Some t"
    and op: "\<not> completed t"
    and none: "\<not> truthy (assignedTo t) \<or>
         find_ref (\<lambda>m. Some (name m) = assignedTo t) (members fam) = None"
  shows "post_complete now c i date s =
           (Ok \<lparr>r_id = tid t, r_completed = True,
                r_completedAt = Some (case date of Some d \<Rightarrow> d | None \<Rightarrow> now),
                memberScore = None\<rparr>,
            save_task (t\<lparr>completed := True,
                          completedAt := Some (case date of Some d \<Rightarrow> d | None \<Rightarrow> now)\<rparr>) s)"
  using complete_handler_no_credit[OF task op none, of now date] auth
  by (simp add: post_complete_def)

lemma post_complete_done:
  assumes auth: "authenticate c s = Some fam"
    and task: "findOne_task i (fid fam) s = Some t"
    and fin: "completed t"
  shows "post_complete now c i date s =
           (Ok \<lparr>r_id = tid t, r_completed = True, r_completedAt = completedAt t,
                memberScore = None\<rparr>, s)"
  using complete_handler_done[OF task fin, of now date] auth
  by (simp add: post_complete_def)

lemma post_complete_open:
  assumes auth: "authenticate c s = Some fam"
    and task: "findOne_task i (fid fam) s = Some t"
    and op: "\<not> completed t"
  shows "(\<exists>ms. fst (post_complete now c i date s) =
            Ok \<lparr>r_id = tid t, r_completed = True,
                 r_completedAt = Some (case date of Some d \<Rightarrow> d | None \<Rightarrow> now),
                 memberScore = ms\<rparr>) \<and>
         findOne_task i (fid fam) (snd (post_complete now c i date s)) =
           Some (t\<lparr>completed := True,
                   completedAt := Some (case date of Some d \<Rightarrow> d | None \<Rightarrow> now)\<rparr>)"
proof (cases "truthy (assignedTo t) \<and>
          find_ref (\<lambda>m. Some (name m) = assignedTo t) (members fam) \<noteq> None")
  case True
  then obtain k n where k: "find_ref (\<lambda>m. Some (name m) = assignedTo t) (members fam) = Some k"
    and n: "assignedTo t = Some n" "n \<noteq> []"
    by (cases "assignedTo t") auto
  show ?thesis
    unfolding post_complete_credit[OF auth task op n k, of now date]
    by (simp add: findOne_save_family findOne_save_task[OF task])
next
  case False
  then have none: "\<not> truthy (assignedTo t) \<or>
      find_ref (\<lambda>m. Some (name m) = assignedTo t) (members fam) = None" by auto
  show ?thesis
    unfolding post_complete_no_credit[OF auth task op none, of now date]
    by (simp add: findOne_save_task[OF task])
qed

text \<open>
  C1. A task of the caller's family that is not completed: the call answers
  \<open>completed = true\<close> and \<open>completedAt\<close> the date given, or the clock's instant when none is
  given, and the stored task is the old one with exactly these two fields set. When
  moreover \<open>assignedTo\<close> is the (non-empty) name of a member, and the scores under that name
  lie from \<open>-2^53\<close> up to, not including, \<open>2^53\<close>, where adding 1 is exact: \<open>memberScore\<close>
  is that member's score plus one, and the stored family is the old one with the score of
  that one member raised by one.
\<close>

theorem complete_first_time:
  assumes auth: "authenticate c s = Some fam"
    and task: "findOne_task i (fid fam) s = Some t"
    and op: "\<not> completed t"
  shows "(\<exists>ms. fst (post_complete now c i date s) =
            Ok \<lparr>r_id = tid t, r_completed = True,
                 r_completedAt = Some (case date of Some d \<Rightarrow> d | None \<Rightarrow> now),
                 memberScore = ms\<rparr>) \<and>
         findOne_task i (fid fam) (snd (post_complete now c i date s)) =
           Some (t\<lparr>completed := True,
                   completedAt := Some (case date of Some d \<Rightarrow> d | None \<Rightarrow> now)\<rparr>) \<and>
         (assignedTo t = Some n \<and> n \<noteq> [] \<and> n \<in> name ` set (members fam) \<and>
          (\<forall>m\<in>set (members fam). name m = n \<longrightarrow>
             - 9007199254740992 \<le> score m \<and> score m < 9007199254740992) \<longrightarrow>
          (\<exists>k<length (members fam). name (members fam ! k) = n \<and>
             fst (post_complete now c i date s) =
               Ok \<lparr>r_id = tid t, r_completed = True,
                    r_completedAt = Some (case date of Some d \<Rightarrow> d | None \<Rightarrow> now),
                    memberScore = Some (score (members fam ! k) + 1)\<rparr> \<and>
             authenticate c (snd (post_complete now c i date s)) =
               Some (fam\<lparr>members :=
                       (members fam)[k := (members fam ! k)\<lparr>score := score (members fam ! k) + 1\<rparr>]\<rparr>)))"
proof (intro conjI impI)
  from post_complete_open[OF auth task op, of now date]
  show "\<exists>ms. fst (post_complete now c i date s) =
            Ok \<lparr>r_id = tid t, r_completed = True,
                 r_completedAt = Some (case date of Some d \<Rightarrow> d | None \<Rightarrow> now),
                 memberScore = ms\<rparr>"
    and "findOne_task i (fid fam) (snd (post_complete now c i date s)) =
           Some (t\<lparr>completed := True,
                   completedAt := Some (case date of Some d \<Rightarrow> d | None \<Rightarrow> now)\<rparr>)"
    by blast+
next
  assume a: "assignedTo t = Some n \<and> n \<noteq> [] \<and> n \<in> name ` set (members fam) \<and>
          (\<forall>m\<in>set (members fam). name m = n \<longrightarrow>
             - 9007199254740992 \<le> score m \<and> score m < 9007199254740992)"
  then have asg: "assignedTo t = Some n" "n \<noteq> []" and mem: "n \<in> name ` set (members fam)"
    and bound: "\<forall>m\<in>set (members fam). name m = n \<longrightarrow>
             - 9007199254740992 \<le> score m \<and> score m < 9007199254740992"
    by simp_all
  from named_member_ref[OF mem] asg(1)
  obtain k where k: "find_ref (\<lambda>m. Some (name m) = assignedTo t) (members fam) = Some k"
    by auto
  from find_ref_Some[OF k] asg(1)
  have kl: "k < length (members fam)" and kn: "name (members fam ! k) = n" by auto
  from kl kn bound have "- 9007199254740992 \<le> score (members fam ! k)"
    and "score (members fam ! k) < 9007199254740992"
    by (auto dest: nth_mem)
  then have exact: "Number_add (score (members fam ! k)) 1 = score (members fam ! k) + 1"
    by (rule Number_add_1)
  note run = post_complete_credit[OF auth task op asg k, of now date, unfolded exact]
  have "authenticate c (snd (post_complete now c i date s)) =
             Some (fam\<lparr>members :=
                     (members fam)[k := (members fam ! k)\<lparr>score := score (members fam ! k) + 1\<rparr>]\<rparr>)"
    unfolding run using auth
    by (simp add: authenticate_save_family authenticate_save_task)
  then show "\<exists>k<length (members fam). name (members fam ! k) = n \<and>
             fst (post_complete now c i date s) =
               Ok \<lparr>r_id = tid t, r_completed = True,
                    r_completedAt = Some (case date of Some d \<Rightarrow> d | None \<Rightarrow> now),
                    memberScore = Some (score (members fam ! k) + 1)\<rparr> \<and>
             authenticate c (snd (post_complete now c i date s)) =
               Some (fam\<lparr>members :=
                       (members fam)[k := (members fam ! k)\<lparr>score := score (members fam ! k) + 1\<rparr>]\<rparr>)"
    using kl kn run by auto
qed

theorem complete_first_time_witness:
  "fst (post_complete 1000 1 7 None demo_store) =
     Ok \<lparr>r_id = 7, r_completed = True, r_completedAt = Some 1000, memberScore = Some 1\<rparr> \<and>
   findOne_task 7 1 (snd (post_complete 1000 1 7 None demo_store)) =
     Some ((chore 7 1 (Some ''Alice''))\<lparr>completed := True, completedAt := Some 1000\<rparr>) \<and>
   map_option members (authenticate 1 (snd (post_complete 1000 1 7 None demo_store))) =
     Some [\<lparr>name = ''Alice'', score = 1\<rparr>, \<lparr>name = ''Bob'', score = 0\<rparr>] \<and>
   findOne_task 8 1 (snd (post_complete 1000 1 8 (Some 900) demo_store)) =
     Some ((chore 8 1 None)\<lparr>completed := True, completedAt := Some 900\<rparr>)"
proof -
  have f: "fid alice_bob = 1" by (simp add: alice_bob_def)
  have op: "\<not> completed (chore 7 1 (Some ''Alice''))" "\<not> completed (chore 8 1 None)"
    by (simp_all add: chore_def)
  have asg: "assignedTo (chore 7 1 (Some ''Alice'')) = Some ''Alice'' \<and> ''Alice'' \<noteq> [] \<and>
      ''Alice'' \<in> name ` set (members alice_bob) \<and>
      (\<forall>m\<in>set (members alice_bob). name m = ''Alice'' \<longrightarrow>
         - 9007199254740992 \<le> score m \<and> score m < 9007199254740992)"
    by (simp add: chore_def alice_bob_def)
  note a = complete_first_time[OF demo_auth demo_task7 op(1), of 1000 None "''Alice''"]
  note b = complete_first_time[OF demo_auth demo_task8 op(2), of 1000 "Some 900" "''Alice''"]
  from a have stored7: "findOne_task 7 1 (snd (post_complete 1000 1 7 None demo_store)) =
     Some ((chore 7 1 (Some ''Alice''))\<lparr>completed := True, completedAt := Some 1000\<rparr>)"
    by (simp add: f)
  from b have stored8: "findOne_task 8 1 (snd (post_complete 1000 1 8 (Some 900) demo_store)) =
     Some ((chore 8 1 None)\<lparr>completed := True, completedAt := Some 900\<rparr>)"
    by (simp add: f)
  from a asg
  obtain k where k: "k < length (members alice_bob)" "name (members alice_bob ! k) = ''Alice''"
    and r: "fst (post_complete 1000 1 7 None demo_store) =
             Ok \<lparr>r_id = tid (chore 7 1 (Some ''Alice'')), r_completed = True,
                  r_completedAt = Some 1000,
                  memberScore = Some (score (members alice_bob ! k) + 1)\<rparr>"
      "authenticate 1 (snd (post_complete 1000 1 7 None demo_store)) =
             Some (alice_bob\<lparr>members :=
                     (members alice_bob)[k := (members alice_bob ! k)\<lparr>score := score (members alice_bob ! k) + 1\<rparr>]\<rparr>)"
    by auto
  from k have "k = 0" by (auto simp: alice_bob_def less_Suc_eq numeral_2_eq_2)
  with r stored7 stored8 show ?thesis by (simp add: alice_bob_def chore_def)
qed

text \<open>
  Beyond that range the claim fails. A family registers Alice with a score of \<open>2^53\<close> and
  creates a task for her; completing it answers a \<open>memberScore\<close> of \<open>2^53\<close> and stores that
  same score: in doubles, \<open>2^53 + 1\<close> is \<open>2^53\<close>.
\<close>

theorem complete_first_time_counterexample:
  "map_option members (authenticate 0 (serve_all rich_start empty_store)) =
     Some [\<lparr>name = ''Alice'', score = 9007199254740992\<rparr>] \<and>
   fst (post_complete 30 0 1 None (serve_all rich_start empty_store)) =
     Ok \<lparr>r_id = 1, r_completed = True, r_completedAt = Some 30,
          memberScore = Some 9007199254740992\<rparr> \<and>
   map_option members
     (authenticate 0 (snd (post_complete 30 0 1 None (serve_all rich_start empty_store)))) =
     Some [\<lparr>name = ''Alice'', score = 9007199254740992\<rparr>]"
  by code_simp

text \<open>
  C8. A task of the caller's family that is not completed and whose \<open>assignedTo\<close> is
  absent, empty, or the name of no member: the call answers \<open>completed = true\<close> and the
  \<open>completedAt\<close> it set, without \<open>memberScore\<close>; the task is stored with these two fields
  set, the families are what they were, and the one write issued is that of the task.
\<close>

theorem complete_without_credit:
  assumes auth: "authenticate c s = Some fam"
    and task: "findOne_task i (fid fam) s = Some t"
    and op: "\<not> completed t"
    and none: "assignedTo t = None \<or> assignedTo t = Some [] \<or>
               assignedTo t \<notin> Some ` name ` set (members fam)"
  shows "fst (post_complete now c i date s) =
           Ok \<lparr>r_id = tid t, r_completed = True,
                r_completedAt = Some (case date of Some d \<Rightarrow> d | None \<Rightarrow> now),
                memberScore = None\<rparr> \<and>
         findOne_task i (fid fam) (snd (post_complete now c i date s)) =
           Some (t\<lparr>completed := True,
                   completedAt := Some (case date of Some d \<Rightarrow> d | None \<Rightarrow> now)\<rparr>) \<and>
         Families (snd (post_complete now c i date s)) = Families s \<and>
         writes (snd (post_complete now c i date s)) =
           writes s @ [TaskWrite (t\<lparr>completed := True,
                   completedAt := Some (case date of Some d \<Rightarrow> d | None \<Rightarrow> now)\<rparr>)]"
proof -
  have "\<not> truthy (assignedTo t) \<or>
         find_ref (\<lambda>m. Some (name m) = assignedTo t) (members fam) = None"
  proof (cases "assignedTo t = None \<or> assignedTo t = Some []")
    case True
    then show ?thesis by auto
  next
    case False
    with none have "assignedTo t \<notin> Some ` name ` set (members fam)" by blast
    then have "\<forall>x\<in>set (members fam). \<not> Some (name x) = assignedTo t"
      by (metis imageI)
    then show ?thesis by (simp add: find_ref_None)
  qed
  note run = post_complete_no_credit[OF auth task op this, of now date]
  show ?thesis
    unfolding run by (simp add: findOne_save_task[OF task]) (simp add: save_task_def)
qed

theorem complete_without_credit_witness:
  "fst (post_complete 1000 1 9 (Some 900) demo_store) =
     Ok \<lparr>r_id = 9, r_completed = True, r_completedAt = Some 900, memberScore = None\<rparr> \<and>
   Families (snd (post_complete 1000 1 9 (Some 900) demo_store)) = [alice_bob, twins] \<and>
   writes (snd (post_complete 1000 1 9 (Some 900) demo_store)) =
     [TaskWrite ((chore 9 1 (Some ''Carol''))\<lparr>completed := True, completedAt := Some 900\<rparr>)] \<and>
   fst (post_complete 1000 1 8 None demo_store) =
     Ok \<lparr>r_id = 8, r_completed = True, r_completedAt = Some 1000, memberScore = None\<rparr> \<and>
   Families (snd (post_complete 1000 1 8 None demo_store)) = [alice_bob, twins]"
proof -
  have a: "\<not> completed (chore 9 1 (Some ''Carol''))"
    and b: "assignedTo (chore 9 1 (Some ''Carol'')) = None \<or>
       assignedTo (chore 9 1 (Some ''Carol'')) = Some [] \<or>
       assignedTo (chore 9 1 (Some ''Carol'')) \<notin> Some ` name ` set (members alice_bob)"
    by (simp_all add: chore_def alice_bob_def)
  have c: "\<not> completed (chore 8 1 None)"
    and d: "assignedTo (chore 8 1 None) = None \<or> assignedTo (chore 8 1 None) = Some [] \<or>
       assignedTo (chore 8 1 None) \<notin> Some ` name ` set (members alice_bob)"
    by (simp_all add: chore_def)
  from complete_without_credit[OF demo_auth demo_task9 a b, of 1000 "Some 900"]
    complete_without_credit[OF demo_auth demo_task8 c d, of 1000 None]
  show ?thesis by (simp add: chore_def demo_store_def)
qed


text \<open>
  C10. Members may share a name. When the task's assignee is a name in the registry, and
  the score of the first member of that name in registry order lies from \<open>-2^53\<close> up to,
  not including, \<open>2^53\<close>, the member credited is that first one: that member's new score
  is the \<open>memberScore\<close> of the answer, and every other member, a later namesake included,
  is stored unchanged.
\<close>

theorem complete_credits_first_namesake:
  assumes auth: "authenticate c s = Some fam"
    and task: "findOne_task i (fid fam) s = Some t"
    and op: "\<not> completed t"
    and asg: "assignedTo t = Some n" "n \<noteq> []"
    and k: "k < length (members fam)" "name (members fam ! k) = n"
    and first: "\<forall>j<k. name (members fam ! j) \<noteq> n"
    and bound: "- 9007199254740992 \<le> score (members fam ! k)"
      "score (members fam ! k) < 9007199254740992"
  shows "fst (post_complete now c i date s) =
           Ok \<lparr>r_id = tid t, r_completed = True,
                r_completedAt = Some (case date of Some d \<Rightarrow> d | None \<Rightarrow> now),
                memberScore = Some (score (members fam ! k) + 1)\<rparr> \<and>
         (\<exists>fam'. authenticate c (snd (post_complete now c i date s)) = Some fam' \<and>
            length (members fam') = length (members fam) \<and>
            members fam' ! k = (members fam ! k)\<lparr>score := score (members fam ! k) + 1\<rparr> \<and>
            (\<forall>j<length (members fam). j \<noteq> k \<longrightarrow> members fam' ! j = members fam ! j))"
proof -
  have ref: "find_ref (\<lambda>m. Some (name m) = assignedTo t) (members fam) = Some k"
    using k first asg(1) by (intro find_ref_first) auto
  from bound have exact: "Number_add (score (members fam ! k)) 1 = score (members fam ! k) + 1"
    by (rule Number_add_1)
  note run = post_complete_credit[OF auth task op asg ref, of now date, unfolded exact]
  have "authenticate c (snd (post_complete now c i date s)) =
             Some (fam\<lparr>members :=
                     (members fam)[k := (members fam ! k)\<lparr>score := score (members fam ! k) + 1\<rparr>]\<rparr>)"
    unfolding run using auth
    by (simp add: authenticate_save_family authenticate_save_task)
  then show ?thesis using k(1) run by simp
qed

theorem complete_credits_first_namesake_witness:
  "fst (post_complete 1000 2 10 None demo_store) =
     Ok \<lparr>r_id = 10, r_completed = True, r_completedAt = Some 1000, memberScore = Some 4\<rparr> \<and>
   map_option members (authenticate 2 (snd (post_complete 1000 2 10 None demo_store))) =
     Some [\<lparr>name = ''Bob'', score = 5\<rparr>, \<lparr>name = ''Alice'', score = 4\<rparr>,
           \<lparr>name = ''Alice'', score = 7\<rparr>]"
proof -
  have a: "\<not> completed (chore 10 2 (Some ''Alice''))"
    and b: "assignedTo (chore 10 2 (Some ''Alice'')) = Some ''Alice''" "''Alice'' \<noteq> []"
    and k: "1 < length (members twins)" "name (members twins ! 1) = ''Alice''"
    and f: "\<forall>j<1. name (members twins ! j) \<noteq> ''Alice''"
    and bd: "- 9007199254740992 \<le> score (members twins ! 1)"
      "score (members twins ! 1) < 9007199254740992"
    by (simp_all add: chore_def twins_def)
  from complete_credits_first_namesake[OF demo_auth2 demo_task10 a b k f bd, of 1000 None]
  obtain fam' where r: "fst (post_complete 1000 2 10 None demo_store) =
           Ok \<lparr>r_id = tid (chore 10 2 (Some ''Alice'')), r_completed = True,
                r_completedAt = Some 1000,
                memberScore = Some (score (members twins ! 1) + 1)\<rparr>"
    and f': "authenticate 2 (snd (post_complete 1000 2 10 None demo_store)) = Some fam'"
       "length (members fam') = length (members twins)"
       "members fam' ! 1 = (members twins ! 1)\<lparr>score := score (members twins ! 1) + 1\<rparr>"
       "\<forall>j<length (members twins). j \<noteq> 1 \<longrightarrow> members fam' ! j = members twins ! j"
    by auto
  from f'(2) obtain x y z where xyz: "members fam' = [x, y, z]"
    by (auto simp: twins_def length_Suc_conv numeral_3_eq_3)
  from f'(4) have "members fam' ! 0 = members twins ! 0" "members fam' ! 2 = members twins ! 2"
    by (simp_all add: twins_def)
  with f'(3) xyz have "members fam' = [\<lparr>name = ''Bob'', score = 5\<rparr>, \<lparr>name = ''Alice'', score = 4\<rparr>,
           \<lparr>name = ''Alice'', score = 7\<rparr>]"
    by (simp add: twins_def)
  with r f'(1) show ?thesis by (simp add: chore_def twins_def)
qed

text \<open>
  Without the bound the first namesake is not credited. A family registers Bob, an Alice
  with a score of \<open>2^53\<close> and a second Alice, and creates a task for Alice; completing it
  answers a \<open>memberScore\<close> of \<open>2^53\<close> and every member is stored with the old score.
\<close>

theorem complete_credits_first_namesake_counterexample:
  "fst (post_complete 30 0 1 None (serve_all rich_twins_start empty_store)) =
     Ok \<lparr>r_id = 1, r_completed = True, r_completedAt = Some 30,
          memberScore = Some 9007199254740992\<rparr> \<and>
   map_option members (authenticate 0 (serve_all rich_twins_start empty_store)) =
     Some [\<lparr>name = ''Bob'', score = 5\<rparr>, \<lparr>name = ''Alice'', score = 9007199254740992\<rparr>,
           \<lparr>name = ''Alice'', score = 7\<rparr>] \<and>
   map_option members
     (authenticate 0 (snd (post_complete 30 0 1 None (serve_all rich_twins_start empty_store)))) =
     Some [\<lparr>name = ''Bob'', score = 5\<rparr>, \<lparr>name = ''Alice'', score = 9007199254740992\<rparr>,
           \<lparr>name = ''Alice'', score = 7\<rparr>]"
  by code_simp


section \<open>Completion: calling again\<close>

lemma post_complete_again:
  assumes "post_complete now c i date s = (Ok r, s1)"
  shows "r_completed r = True \<and>
         post_complete now' c i date' s1 = (Ok (r\<lparr>memberScore := None\<rparr>), s1)"
proof (cases "authenticate c s")
  case None
  with assms show ?thesis by (simp add: post_complete_def)
next
  case (Some fam)
  note auth = this
  show ?thesis
  proof (cases "findOne_task i (fid fam) s")
    case None
    with assms auth show ?thesis by (simp add: post_complete_def complete_handler_def)
  next
    case (Some t)
    note task = this
    show ?thesis
    proof (cases "completed t")
      case True
      from assms post_complete_done[OF auth task True, of now date]
      have "s1 = s" and r: "r = \<lparr>r_id = tid t, r_completed = True, r_completedAt = completedAt t,
                memberScore = None\<rparr>" by simp_all
      with post_complete_done[OF auth task True, of now' date'] show ?thesis by simp
    next
      case False
      let ?t' = "t\<lparr>completed := True,
                    completedAt := Some (case date of Some d \<Rightarrow> d | None \<Rightarrow> now)\<rparr>"
      have done': "completed ?t'" by simp
      show ?thesis
      proof (cases "truthy (assignedTo t) \<and>
          find_ref (\<lambda>m. Some (name m) = assignedTo t) (members fam) \<noteq> None")
        case True
        then obtain k n where k: "find_ref (\<lambda>m. Some (name m) = assignedTo t) (members fam) = Some k"
          and n: "assignedTo t = Some n" "n \<noteq> []"
          by (cases "assignedTo t") auto
        let ?fam' = "fam\<lparr>members :=
                     (members fam)[k := (members fam ! k)\<lparr>score := Number_add (score (members fam ! k)) 1\<rparr>]\<rparr>"
        from assms post_complete_credit[OF auth task False n k, of now date]
        have s1: "s1 = save_family ?fam' (save_task ?t' s)"
          and r: "r = \<lparr>r_id = tid t, r_completed = True,
                r_completedAt = Some (case date of Some d \<Rightarrow> d | None \<Rightarrow> now),
                memberScore = Some (Number_add (score (members fam ! k)) 1)\<rparr>" by simp_all
        have auth': "authenticate c s1 = Some ?fam'"
          unfolding s1 using auth by (simp add: authenticate_save_family authenticate_save_task)
        have task': "findOne_task i (fid ?fam') s1 = Some ?t'"
          unfolding s1 by (simp add: findOne_save_family findOne_save_task[OF task])
        from post_complete_done[OF auth' task' done', of now' date'] r
        show ?thesis by simp
      next
        case False
        then have none: "\<not> truthy (assignedTo t) \<or>
            find_ref (\<lambda>m. Some (name m) = assignedTo t) (members fam) = None" by auto
        from assms post_complete_no_credit[OF auth task \<open>\<not> completed t\<close> none, of now date]
        have s1: "s1 = save_task ?t' s"
          and r: "r = \<lparr>r_id = tid t, r_completed = True,
                r_completedAt = Some (case date of Some d \<Rightarrow> d | None \<Rightarrow> now),
                memberScore = None\<rparr>" by simp_all
        have auth': "authenticate c s1 = Some fam"
          unfolding s1 using auth by (simp add: authenticate_save_task)
        have task': "findOne_task i (fid fam) s1 = Some ?t'"
          unfolding s1 by (simp add: findOne_save_task[OF task])
        from post_complete_done[OF auth' task' done', of now' date'] r
        show ?thesis by simp
      qed
    qed
  qed
qed

text \<open>
  C2. Completing a completed task answers \<open>completed = true\<close> with the \<open>completedAt\<close> the
  task has, without \<open>memberScore\<close>, and returns the store as it was (tasks, families and
  the log of writes). After any call that succeeded, a second call for the same task, at
  any later clock reading and with any date, answers what the first answered but for
  \<open>memberScore\<close>, and changes nothing; so two calls on an open task assigned to a member
  whose score lies from \<open>-2^53\<close> up to, not including, \<open>2^53\<close> raise that score by one.
\<close>

theorem complete_idempotent:
  "(authenticate c s = Some fam \<and> findOne_task i (fid fam) s = Some t \<and> completed t \<longrightarrow>
      post_complete now c i date s =
        (Ok \<lparr>r_id = tid t, r_completed = True, r_completedAt = completedAt t,
             memberScore = None\<rparr>, s)) \<and>
   (post_complete now c i date s = (Ok r, s1) \<longrightarrow>
      r_completed r = True \<and>
      post_complete now' c i date' s1 = (Ok (r\<lparr>memberScore := None\<rparr>), s1)) \<and>
   (authenticate c s = Some fam \<and> findOne_task i (fid fam) s = Some t \<and> \<not> completed t \<and>
    assignedTo t = Some n \<and> n \<noteq> [] \<and> n \<in> name ` set (members fam) \<and>
    (\<forall>m\<in>set (members fam). name m = n \<longrightarrow>
       - 9007199254740992 \<le> score m \<and> score m < 9007199254740992) \<longrightarrow>
      (\<exists>k<length (members fam). name (members fam ! k) = n \<and>
         authenticate c (snd (post_complete now' c i date' (snd (post_complete now c i date s)))) =
           Some (fam\<lparr>members :=
             (members fam)[k := (members fam ! k)\<lparr>score := score (members fam ! k) + 1\<rparr>]\<rparr>)))"
proof (intro conjI impI)
  assume "authenticate c s = Some fam \<and> findOne_task i (fid fam) s = Some t \<and> completed t"
  then show "post_complete now c i date s =
        (Ok \<lparr>r_id = tid t, r_completed = True, r_completedAt = completedAt t,
             memberScore = None\<rparr>, s)"
    using post_complete_done by blast
next
  assume a: "post_complete now c i date s = (Ok r, s1)"
  from post_complete_again[OF a] show "r_completed r = True" by simp
  from post_complete_again[OF a]
  show "post_complete now' c i date' s1 = (Ok (r\<lparr>memberScore := None\<rparr>), s1)" by simp
next
  assume a: "authenticate c s = Some fam \<and> findOne_task i (fid fam) s = Some t \<and> \<not> completed t \<and>
    assignedTo t = Some n \<and> n \<noteq> [] \<and> n \<in> name ` set (members fam) \<and>
    (\<forall>m\<in>set (members fam). name m = n \<longrightarrow>
       - 9007199254740992 \<le> score m \<and> score m < 9007199254740992)"
  then have auth: "authenticate c s = Some fam" and task: "findOne_task i (fid fam) s = Some t"
    and op: "\<not> completed t" and asg: "assignedTo t = Some n" "n \<noteq> []"
    and mem: "n \<in> name ` set (members fam)"
    and bound: "\<forall>m\<in>set (members fam). name m = n \<longrightarrow>
       - 9007199254740992 \<le> score m \<and> score m < 9007199254740992"
    by simp_all
  from named_member_ref[OF mem] asg(1)
  obtain k where k: "find_ref (\<lambda>m. Some (name m) = assignedTo t) (members fam) = Some k"
    by auto
  from find_ref_Some[OF k] asg(1)
  have kl: "k < length (members fam)" and kn: "name (members fam ! k) = n" by auto
  from kl kn bound have "- 9007199254740992 \<le> score (members fam ! k)"
    and "score (members fam ! k) < 9007199254740992"
    by (auto dest: nth_mem)
  then have exact: "Number_add (score (members fam ! k)) 1 = score (members fam ! k) + 1"
    by (rule Number_add_1)
  note run = post_complete_credit[OF auth task op asg k, of now date, unfolded exact]
  from post_complete_again[OF run, of now' date']
  have "snd (post_complete now' c i date' (snd (post_complete now c i date s))) =
          snd (post_complete now c i date s)"
    unfolding run by simp
  moreover have "authenticate c (snd (post_complete now c i date s)) =
             Some (fam\<lparr>members :=
                     (members fam)[k := (members fam ! k)\<lparr>score := score (members fam ! k) + 1\<rparr>]\<rparr>)"
    unfolding run using auth
    by (simp add: authenticate_save_family authenticate_save_task)
  ultimately show "\<exists>k<length (members fam). name (members fam ! k) = n \<and>
         authenticate c (snd (post_complete now' c i date' (snd (post_complete now c i date s)))) =
           Some (fam\<lparr>members :=
             (members fam)[k := (members fam ! k)\<lparr>score := score (members fam ! k) + 1\<rparr>]\<rparr>)"
    using kl kn by auto
qed

theorem complete_idempotent_witness:
  "post_complete 2000 1 7 (Some 1500) (snd (post_complete 1000 1 7 None demo_store)) =
     (Ok \<lparr>r_id = 7, r_completed = True, r_completedAt = Some 1000, memberScore = None\<rparr>,
      snd (post_complete 1000 1 7 None demo_store)) \<and>
   map_option members (authenticate 1
      (snd (post_complete 2000 1 7 (Some 1500) (snd (post_complete 1000 1 7 None demo_store))))) =
     Some [\<lparr>name = ''Alice'', score = 1\<rparr>, \<lparr>name = ''Bob'', score = 0\<rparr>]"
proof -
  have h: "authenticate 1 demo_store = Some alice_bob \<and>
      findOne_task 7 (fid alice_bob) demo_store = Some (chore 7 1 (Some ''Alice'')) \<and>
      \<not> completed (chore 7 1 (Some ''Alice'')) \<and>
      assignedTo (chore 7 1 (Some ''Alice'')) = Some ''Alice'' \<and> ''Alice'' \<noteq> [] \<and>
      ''Alice'' \<in> name ` set (members alice_bob) \<and>
      (\<forall>m\<in>set (members alice_bob). name m = ''Alice'' \<longrightarrow>
         - 9007199254740992 \<le> score m \<and> score m < 9007199254740992)"
    using demo_auth demo_task7 by (simp add: chore_def alice_bob_def)
  have k0: "find_ref (\<lambda>m. Some (name m) = assignedTo (chore 7 1 (Some ''Alice'')))
      (members alice_bob) = Some 0"
    by (simp add: chore_def alice_bob_def)
  from h have op: "\<not> completed (chore 7 1 (Some ''Alice''))"
    and asg: "assignedTo (chore 7 1 (Some ''Alice'')) = Some ''Alice''" "''Alice'' \<noteq> []"
    by simp_all
  have one: "Number_add (score (members alice_bob ! 0)) 1 = 1"
    by (simp add: alice_bob_def Number_add_1)
  have first: "post_complete 1000 1 7 None demo_store =
      (Ok \<lparr>r_id = 7, r_completed = True, r_completedAt = Some 1000, memberScore = Some 1\<rparr>,
       snd (post_complete 1000 1 7 None demo_store))"
    unfolding post_complete_credit[OF demo_auth demo_task7 op asg k0, of 1000 None] one
    by (simp add: chore_def alice_bob_def)
  note inst = complete_idempotent[of 1 demo_store alice_bob 7 "chore 7 1 (Some ''Alice'')" 1000 None
      "\<lparr>r_id = 7, r_completed = True, r_completedAt = Some 1000, memberScore = Some 1\<rparr>"
      "snd (post_complete 1000 1 7 None demo_store)" 2000 "Some 1500" "''Alice''"]
  from inst first have second:
    "post_complete 2000 1 7 (Some 1500) (snd (post_complete 1000 1 7 None demo_store)) =
     (Ok \<lparr>r_id = 7, r_completed = True, r_completedAt = Some 1000, memberScore = None\<rparr>,
      snd (post_complete 1000 1 7 None demo_store))"
    by simp
  from inst h obtain k where k: "k < length (members alice_bob)" "name (members alice_bob ! k) = ''Alice''"
    and r: "authenticate 1
      (snd (post_complete 2000 1 7 (Some 1500) (snd (post_complete 1000 1 7 None demo_store)))) =
       Some (alice_bob\<lparr>members :=
             (members alice_bob)[k := (members alice_bob ! k)\<lparr>score := score (members alice_bob ! k) + 1\<rparr>]\<rparr>)"
    by blast
  from k have "k = 0" by (auto simp: alice_bob_def less_Suc_eq numeral_2_eq_2)
  with r second show ?thesis by (simp add: alice_bob_def)
qed

text \<open>
  Without the bound two calls need not raise the score by one: for the Alice registered
  with \<open>2^53\<close> they raise it by nothing.
\<close>

theorem complete_idempotent_counterexample:
  "map_option members (authenticate 0 (serve_all rich_start empty_store)) =
     Some [\<lparr>name = ''Alice'', score = 9007199254740992\<rparr>] \<and>
   map_option members
     (authenticate 0
       (snd (post_complete 40 0 1 None
         (snd (post_complete 30 0 1 None (serve_all rich_start empty_store)))))) =
     Some [\<lparr>name = ''Alice'', score = 9007199254740992\<rparr>] \<and>
   fst (post_complete 40 0 1 None
         (snd (post_complete 30 0 1 None (serve_all rich_start empty_store)))) =
     Ok \<lparr>r_id = 1, r_completed = True, r_completedAt = Some 30, memberScore = None\<rparr>"
  by code_simp


section \<open>The update route and the completion fields\<close>

lemma Families_save_task: "Families (save_task t s) = Families s"
  by (simp add: save_task_def)

lemma find_moved_task:
  assumes "find (\<lambda>x. tid x = i \<and> tfamily x = f) ts = Some t" and "tid t' = i"
  shows "find (\<lambda>x. tid x = i \<and> tfamily x = tfamily t')
           (map (\<lambda>x. if tid x = tid t' then t' else x) ts) = Some t'"
  using assms by (induction ts) (auto split: if_splits)

lemma findOne_moved_task:
  assumes "findOne_task i f s = Some t" and "tid t' = i"
  shows "findOne_task i (tfamily t') (save_task t' s) = Some t'"
  using find_moved_task[OF assms[unfolded findOne_task_def]]
  by (simp add: findOne_task_def save_task_def)

lemma findOne_tid: "findOne_task i f s = Some t \<Longrightarrow> tid t = i"
  unfolding findOne_task_def by (auto simp: find_Some_iff)

lemma valid_task_completedAt: "valid_task (t\<lparr>completedAt := x\<rparr>) = valid_task t"
  by (simp add: valid_task_def)

lemma put_task_found:
  assumes auth: "authenticate c s = Some fam" and task: "findOne_task i (fid fam) s = Some t"
    and ok: "valid_task (assign_update now t u)"
  shows "put_task now c i u s =
           (Ok (view (if u_completed u = Some True \<and> completedAt (assign_update now t u) = None
                      then (assign_update now t u)\<lparr>completedAt := Some now\<rparr>
                      else assign_update now t u)),
            save_task (if u_completed u = Some True \<and> completedAt (assign_update now t u) = None
                       then (assign_update now t u)\<lparr>completedAt := Some now\<rparr>
                       else assign_update now t u) s)"
  using assms by (simp add: put_task_def update_handler_def Let_def valid_task_completedAt)

lemma put_task_invalid:
  assumes auth: "authenticate c s = Some fam" and task: "findOne_task i (fid fam) s = Some t"
    and bad: "\<not> valid_task (assign_update now t u)"
  shows "put_task now c i u s = (Err 500, s)"
  using assms by (simp add: put_task_def update_handler_def Let_def valid_task_completedAt)

lemma assign_update_ids:
  "tid (assign_update now t u) = tid t \<and>
   tfamily (assign_update now t u) = (case u_family u of None \<Rightarrow> tfamily t | Some f \<Rightarrow> f)"
  by (simp add: assign_update_def)

lemma assign_update_completion:
  "completed (assign_update now t u) = (case u_completed u of None \<Rightarrow> completed t | Some b \<Rightarrow> b) \<and>
   completedAt (assign_update now t u) =
     (case u_completedAt u of None \<Rightarrow> completedAt t | Some v \<Rightarrow> v)"
  by (simp add: assign_update_def)

lemma findOne_family: "findOne_task i f s = Some t \<Longrightarrow> tfamily t = f"
  unfolding findOne_task_def by (auto simp: find_Some_iff)

text \<open>
  C9. The update route never changes a family, so no score moves. An update that fails
  validation is answered 500 and stores nothing. On a task of the caller's family, an
  update that passes validation and whose body has no \<open>completedAt\<close> property stores
  \<open>completed\<close> as the body gives it (unchanged when the body has none), and sets
  \<open>completedAt\<close> to the clock's instant exactly when the body's \<open>completed\<close> is true and the
  task had no \<open>completedAt\<close>; in every other case, setting \<open>completed\<close> to false included,
  \<open>completedAt\<close> stays what it was. The task is stored under the family the body names, if
  it names one.
\<close>

theorem put_task_completion:
  "Families (snd (put_task now c i u s)) = Families s \<and>
   (authenticate c s = Some fam \<and> findOne_task i (fid fam) s = Some t \<and>
    \<not> valid_task (assign_update now t u) \<longrightarrow>
      put_task now c i u s = (Err 500, s)) \<and>
   (authenticate c s = Some fam \<and> findOne_task i (fid fam) s = Some t \<and>
    valid_task (assign_update now t u) \<and> u_completedAt u = None \<longrightarrow>
     (\<exists>t'. findOne_task i (case u_family u of None \<Rightarrow> fid fam | Some f \<Rightarrow> f)
              (snd (put_task now c i u s)) = Some t' \<and>
        completed t' = (case u_completed u of None \<Rightarrow> completed t | Some b \<Rightarrow> b) \<and>
        completedAt t' = (if u_completed u = Some True \<and> completedAt t = None then Some now
                          else completedAt t)))"
proof (intro conjI impI)
  show "Families (snd (put_task now c i u s)) = Families s"
    by (simp add: put_task_def update_handler_def Families_save_task Let_def split: option.splits)
next
  assume "authenticate c s = Some fam \<and> findOne_task i (fid fam) s = Some t \<and>
    \<not> valid_task (assign_update now t u)"
  then show "put_task now c i u s = (Err 500, s)"
    using put_task_invalid by blast
next
  assume a: "authenticate c s = Some fam \<and> findOne_task i (fid fam) s = Some t \<and>
    valid_task (assign_update now t u) \<and> u_completedAt u = None"
  then have auth: "authenticate c s = Some fam" and task: "findOne_task i (fid fam) s = Some t"
    and ok: "valid_task (assign_update now t u)" and plain: "u_completedAt u = None"
    by simp_all
  let ?t' = "if u_completed u = Some True \<and> completedAt (assign_update now t u) = None
             then (assign_update now t u)\<lparr>completedAt := Some now\<rparr> else assign_update now t u"
  have tid': "tid ?t' = i"
    using findOne_tid[OF task] by (simp add: assign_update_ids)
  have fam': "tfamily ?t' = (case u_family u of None \<Rightarrow> fid fam | Some f \<Rightarrow> f)"
    using findOne_family[OF task] by (simp add: assign_update_ids split: option.splits)
  have "findOne_task i (tfamily ?t') (snd (put_task now c i u s)) = Some ?t'"
    unfolding put_task_found[OF auth task ok] snd_conv
    by (rule findOne_moved_task[OF task tid'])
  then have "findOne_task i (case u_family u of None \<Rightarrow> fid fam | Some f \<Rightarrow> f)
              (snd (put_task now c i u s)) = Some ?t'"
    by (simp only: fam')
  moreover have "completed ?t' = (case u_completed u of None \<Rightarrow> completed t | Some b \<Rightarrow> b)"
    by (simp add: assign_update_completion)
  moreover have "completedAt ?t' =
      (if u_completed u = Some True \<and> completedAt t = None then Some now else completedAt t)"
    by (simp add: assign_update_completion plain)
  ultimately show "\<exists>t'. findOne_task i (case u_family u of None \<Rightarrow> fid fam | Some f \<Rightarrow> f)
              (snd (put_task now c i u s)) = Some t' \<and>
        completed t' = (case u_completed u of None \<Rightarrow> completed t | Some b \<Rightarrow> b) \<and>
        completedAt t' = (if u_completed u = Some True \<and> completedAt t = None then Some now
                          else completedAt t)"
    by blast
qed

theorem put_task_completion_witness:
  "map_option completed
     (findOne_task 7 1 (snd (put_task 2000 1 7 (no_update\<lparr>u_completed := Some False\<rparr>) finished_store)))
     = Some False \<and>
   map_option completedAt
     (findOne_task 7 1 (snd (put_task 2000 1 7 (no_update\<lparr>u_completed := Some False\<rparr>) finished_store)))
     = Some (Some 1000) \<and>
   map_option completed
     (findOne_task 7 1 (snd (put_task 2000 1 7 (no_update\<lparr>u_completed := Some True\<rparr>) finished_store)))
     = Some True \<and>
   map_option completedAt
     (findOne_task 7 1 (snd (put_task 2000 1 7 (no_update\<lparr>u_completed := Some True\<rparr>) finished_store)))
     = Some (Some 1000) \<and>
   map_option completedAt
     (findOne_task 8 1 (snd (put_task 2000 1 8 (no_update\<lparr>u_completed := Some True\<rparr>) finished_store)))
     = Some (Some 2000) \<and>
   Families (snd (put_task 2000 1 8 (no_update\<lparr>u_completed := Some True\<rparr>) finished_store))
     = [alice_bob, twins] \<and>
   put_task 2000 1 8 (no_update\<lparr>u_title := Some [], u_completed := Some True\<rparr>) finished_store
     = (Err 500, finished_store)"
proof -
  have f: "fid alice_bob = 1" by (simp add: alice_bob_def)
  from put_task_completion[of 2000 1 7 "no_update\<lparr>u_completed := Some False\<rparr>" finished_store
      alice_bob "(chore 7 1 (Some ''Alice''))\<lparr>completed := True, completedAt := Some 1000\<rparr>"]
    finished_auth finished_task7
  have a: "map_option completed
     (findOne_task 7 1 (snd (put_task 2000 1 7 (no_update\<lparr>u_completed := Some False\<rparr>) finished_store)))
     = Some False \<and>
   map_option completedAt
     (findOne_task 7 1 (snd (put_task 2000 1 7 (no_update\<lparr>u_completed := Some False\<rparr>) finished_store)))
     = Some (Some 1000)"
    by (auto simp: f no_update_def valid_task_def assign_update_def chore_def)
  from put_task_completion[of 2000 1 7 "no_update\<lparr>u_completed := Some True\<rparr>" finished_store
      alice_bob "(chore 7 1 (Some ''Alice''))\<lparr>completed := True, completedAt := Some 1000\<rparr>"]
    finished_auth finished_task7
  have b: "map_option completed
     (findOne_task 7 1 (snd (put_task 2000 1 7 (no_update\<lparr>u_completed := Some True\<rparr>) finished_store)))
     = Some True \<and>
   map_option completedAt
     (findOne_task 7 1 (snd (put_task 2000 1 7 (no_update\<lparr>u_completed := Some True\<rparr>) finished_store)))
     = Some (Some 1000)"
    by (auto simp: f no_update_def valid_task_def assign_update_def chore_def)
  from put_task_completion[of 2000 1 8 "no_update\<lparr>u_completed := Some True\<rparr>" finished_store
      alice_bob "chore 8 1 None"]
    finished_auth finished_task8
  have c: "map_option completedAt
     (findOne_task 8 1 (snd (put_task 2000 1 8 (no_update\<lparr>u_completed := Some True\<rparr>) finished_store)))
     = Some (Some 2000) \<and>
   Families (snd (put_task 2000 1 8 (no_update\<lparr>u_completed := Some True\<rparr>) finished_store))
     = [alice_bob, twins]"
    by (auto simp: f no_update_def chore_def finished_store_def demo_store_def valid_task_def
        assign_update_def)
  from put_task_completion[of 2000 1 8 "no_update\<lparr>u_title := Some [], u_completed := Some True\<rparr>"
      finished_store alice_bob "chore 8 1 None"]
    finished_auth finished_task8
  have d: "put_task 2000 1 8 (no_update\<lparr>u_title := Some [], u_completed := Some True\<rparr>) finished_store
     = (Err 500, finished_store)"
    by (simp add: no_update_def valid_task_def assign_update_def)
  from a b c d show ?thesis by simp
qed

text \<open>
  A body may carry \<open>completedAt\<close>, and then the claim fails: on the task completed at 1000,
  the body \<open>{completed: true, completedAt: null}\<close> at 2000 stores a \<open>completedAt\<close> of 2000
  although the task had one, and \<open>{completed: false, completedAt: null}\<close> leaves none in
  place.
\<close>

theorem put_task_completion_counterexample:
  "map_option completedAt (findOne_task 7 1 finished_store) = Some (Some 1000) \<and>
   map_option completedAt
     (findOne_task 7 1
       (snd (put_task 2000 1 7 (no_update\<lparr>u_completed := Some True, u_completedAt := Some None\<rparr>)
          finished_store))) = Some (Some 2000) \<and>
   map_option completedAt
     (findOne_task 7 1
       (snd (put_task 2000 1 7 (no_update\<lparr>u_completed := Some False, u_completedAt := Some None\<rparr>)
          finished_store))) = Some None"
  by code_simp

section \<open>Completed tasks carry their timestamp\<close>

lemma list_all_replace:
  "list_all P xs \<Longrightarrow> P y \<Longrightarrow> list_all P (map (\<lambda>x. if Q x then y else x) xs)"
  by (induction xs) auto

lemma list_all_delete_first: "list_all P xs \<Longrightarrow> list_all P (delete_first Q xs)"
  by (induction xs) auto

lemma findOne_in_Tasks: "findOne_task i f s = Some t \<Longrightarrow> t \<in> set (Tasks s)"
  unfolding findOne_task_def by (auto simp: find_Some_iff)

lemma authenticate_in_Families: "authenticate c s = Some fam \<Longrightarrow> fam \<in> set (Families s)"
  unfolding authenticate_def by (auto simp: find_Some_iff)

lemma Tasks_save_family: "Tasks (save_family f s) = Tasks s"
  by (simp add: save_family_def)

lemma Tasks_insert_family: "Tasks (insert_family f s) = Tasks s"
  by (simp add: insert_family_def)

lemma all_save_task:
  "list_all P (Tasks s) \<Longrightarrow> P t \<Longrightarrow> list_all P (Tasks (save_task t s))"
  by (simp add: save_task_def list_all_replace)

lemma all_found:
  "list_all P (Tasks s) \<Longrightarrow> findOne_task i f s = Some t \<Longrightarrow> P t"
  by (auto dest: findOne_in_Tasks simp: list_all_iff)

lemma stamped_register:
  "list_all stamped (Tasks s) \<Longrightarrow> list_all stamped (Tasks (snd (post_register nm cd ms s)))"
  by (simp add: post_register_def Tasks_insert_family Let_def split: option.splits)

lemma stamped_member:
  "list_all stamped (Tasks s) \<Longrightarrow> list_all stamped (Tasks (snd (post_member c nm s)))"
  by (simp add: post_member_def Tasks_save_family Let_def split: option.splits)

lemma stamped_post_task:
  "list_all stamped (Tasks s) \<Longrightarrow> list_all stamped (Tasks (snd (post_task now c b s)))"
  by (simp add: post_task_def insert_task_def stamped_def Let_def split: option.splits)

lemma stamped_update:
  assumes "stamped t" and "u_completedAt u \<noteq> Some None"
  shows "stamped (if u_completed u = Some True \<and> completedAt (assign_update now t u) = None
                  then (assign_update now t u)\<lparr>completedAt := Some now\<rparr>
                  else assign_update now t u)"
proof (cases "u_completedAt u")
  case None
  with assms(1) show ?thesis
    by (cases "u_completed u") (auto simp: stamped_def assign_update_def)
next
  case (Some v)
  with assms(2) obtain d where "u_completedAt u = Some (Some d)" by (cases v) auto
  then show ?thesis by (simp add: stamped_def assign_update_def)
qed

lemma stamped_put:
  assumes "list_all stamped (Tasks s)" and "u_completedAt u \<noteq> Some None"
  shows "list_all stamped (Tasks (snd (put_task now c i u s)))"
proof (cases "authenticate c s")
  case None
  with assms show ?thesis by (simp add: put_task_def)
next
  case (Some fam)
  show ?thesis
  proof (cases "findOne_task i (fid fam) s")
    case None
    with Some assms show ?thesis by (simp add: put_task_def update_handler_def)
  next
    case (Some t)
    from all_found[OF assms(1) Some] have "stamped t" .
    from all_save_task[OF assms(1) stamped_update[OF this assms(2)]] Some
      \<open>authenticate c s = Some fam\<close> assms(1)
    show ?thesis by (simp add: put_task_def update_handler_def Let_def)
  qed
qed

lemma stamped_delete:
  "list_all stamped (Tasks s) \<Longrightarrow> list_all stamped (Tasks (snd (delete_task c i s)))"
  by (simp add: delete_task_def deleteOne_task_def list_all_delete_first Let_def
      split: option.splits)

lemma stamped_assign:
  assumes "list_all stamped (Tasks s)"
  shows "list_all stamped (Tasks (snd (post_assign c i mem s)))"
proof (cases "authenticate c s")
  case None
  with assms show ?thesis by (simp add: post_assign_def)
next
  case (Some fam)
  show ?thesis
  proof (cases "findOne_task i (fid fam) s")
    case None
    with Some assms show ?thesis by (simp add: post_assign_def)
  next
    case (Some t)
    from all_found[OF assms Some] have "stamped (t\<lparr>assignedTo := Some mem\<rparr>)"
      by (simp add: stamped_def)
    from all_save_task[OF assms this] Some \<open>authenticate c s = Some fam\<close> assms
    show ?thesis by (simp add: post_assign_def Let_def)
  qed
qed

lemma stamped_comment:
  assumes "list_all stamped (Tasks s)"
  shows "list_all stamped (Tasks (snd (post_comment now c i mem txt s)))"
proof (cases "authenticate c s")
  case None
  with assms show ?thesis by (simp add: post_comment_def)
next
  case (Some fam)
  show ?thesis
  proof (cases "findOne_task i (fid fam) s")
    case None
    with Some assms show ?thesis by (simp add: post_comment_def)
  next
    case (Some t)
    from all_found[OF assms Some]
    have "stamped (t\<lparr>comments := comments t @ [\<lparr>cmember = mem, ctext = txt, ccreatedAt = now\<rparr>]\<rparr>)"
      by (simp add: stamped_def)
    from all_save_task[OF assms this] Some \<open>authenticate c s = Some fam\<close> assms
    show ?thesis by (simp add: post_comment_def Let_def)
  qed
qed

lemma stamped_complete:
  assumes "list_all stamped (Tasks s)"
  shows "list_all stamped (Tasks (snd (post_complete now c i date s)))"
proof (cases "authenticate c s")
  case None
  with assms show ?thesis by (simp add: post_complete_def)
next
  case (Some fam)
  note auth = this
  show ?thesis
  proof (cases "findOne_task i (fid fam) s")
    case None
    with auth assms show ?thesis by (simp add: post_complete_def complete_handler_def)
  next
    case (Some t)
    let ?t' = "t\<lparr>completed := True,
                  completedAt := Some (case date of Some d \<Rightarrow> d | None \<Rightarrow> now)\<rparr>"
    have "stamped ?t'" by (simp add: stamped_def)
    from all_save_task[OF assms this] Some auth assms
    show ?thesis
      by (simp add: post_complete_def complete_handler_def Let_def Tasks_save_family
          split: option.splits)
  qed
qed

lemma stamped_serve:
  assumes "list_all stamped (Tasks s)" and "\<not> clears_completedAt (snd (snd rq))"
  shows "list_all stamped (Tasks (serve rq s))"
proof (cases rq)
  case (fields now c r)
  show ?thesis
  proof (cases r)
    case (PutTask i u)
    with assms(2) fields have "u_completedAt u \<noteq> Some None" by simp
    from stamped_put[OF assms(1) this] PutTask fields show ?thesis by simp
  qed (simp_all add: fields stamped_register stamped_member stamped_post_task
        stamped_delete stamped_assign stamped_comment stamped_complete assms(1))
qed

lemma stamped_serve_all:
  "list_all stamped (Tasks s) \<Longrightarrow> list_all (\<lambda>q. \<not> clears_completedAt (snd (snd q))) rs \<Longrightarrow>
   list_all stamped (Tasks (serve_all rs s))"
  unfolding serve_all_def
  by (induction rs arbitrary: s) (simp_all add: stamped_serve)

lemma complete_completedAt:
  assumes auth: "authenticate c s = Some fam" and task: "findOne_task i (fid fam) s = Some t"
  shows "\<exists>t'. findOne_task i (fid fam) (snd (post_complete now c i date s)) = Some t' \<and>
           completedAt t' = (if completed t then completedAt t
                             else Some (case date of Some d \<Rightarrow> d | None \<Rightarrow> now))"
proof (cases "completed t")
  case True
  from post_complete_done[OF auth task True, of now date] task True
  show ?thesis by simp
next
  case False
  from post_complete_open[OF auth task False, of now date] False
  show ?thesis by simp
qed

text \<open>
  C3. What holds of the code: whatever requests are served, from the empty store or from
  any store where it holds, every stored task that is completed has a \<open>completedAt\<close>,
  provided no update among them has a body whose \<open>completedAt\<close> is null. The completion
  route leaves \<open>completedAt\<close> as it is on a completed task, and sets it on a task that is
  not completed; it never clears it.
\<close>

theorem completed_implies_completedAt:
  "(list_all (\<lambda>q. \<not> clears_completedAt (snd (snd q))) rs \<and> list_all stamped (Tasks s) \<longrightarrow>
      list_all stamped (Tasks (serve_all rs s))) \<and>
   (list_all (\<lambda>q. \<not> clears_completedAt (snd (snd q))) rs \<longrightarrow>
      list_all stamped (Tasks (serve_all rs empty_store))) \<and>
   (authenticate c s = Some fam \<and> findOne_task i (fid fam) s = Some t \<longrightarrow>
      (\<exists>t'. findOne_task i (fid fam) (snd (post_complete now c i date s)) = Some t' \<and>
         completedAt t' = (if completed t then completedAt t
                           else Some (case date of Some d \<Rightarrow> d | None \<Rightarrow> now))))"
proof (intro conjI impI)
  assume "list_all (\<lambda>q. \<not> clears_completedAt (snd (snd q))) rs \<and> list_all stamped (Tasks s)"
  then show "list_all stamped (Tasks (serve_all rs s))"
    using stamped_serve_all by blast
next
  assume a: "list_all (\<lambda>q. \<not> clears_completedAt (snd (snd q))) rs"
  have "list_all stamped (Tasks empty_store)" by (simp add: empty_store_def)
  from stamped_serve_all[OF this a]
  show "list_all stamped (Tasks (serve_all rs empty_store))" .
next
  assume "authenticate c s = Some fam \<and> findOne_task i (fid fam) s = Some t"
  then show "\<exists>t'. findOne_task i (fid fam) (snd (post_complete now c i date s)) = Some t' \<and>
         completedAt t' = (if completed t then completedAt t
                           else Some (case date of Some d \<Rightarrow> d | None \<Rightarrow> now))"
    using complete_completedAt by blast
qed

text \<open>
  On the example store: the family of Alice and Bob completes task 7, sets its \<open>completed\<close>
  back to false, and marks task 8 completed through the update route.
\<close>

lemma housework_run:
  "map completed (Tasks (serve_all housework demo_store)) = [False, True, False, False] \<and>
   map completedAt (Tasks (serve_all housework demo_store)) = [Some 30, Some 50, None, None]"
  by code_simp

theorem completed_implies_completedAt_witness:
  "list_all stamped (Tasks (serve_all reopening empty_store)) \<and>
   list_all stamped (Tasks (serve_all housework demo_store)) \<and>
   map_option completedAt (findOne_task 7 1 (snd (post_complete 2000 1 7 (Some 1500) demo_store)))
     = Some (Some 1500) \<and>
   map_option completedAt (findOne_task 7 1 (snd (post_complete 2000 1 7 (Some 1500) finished_store)))
     = Some (Some 1000)"
proof -
  have d: "list_all stamped (Tasks demo_store)"
    by (simp add: demo_store_def stamped_def chore_def)
  have r: "list_all (\<lambda>q. \<not> clears_completedAt (snd (snd q))) reopening"
    and h: "list_all (\<lambda>q. \<not> clears_completedAt (snd (snd q))) housework"
    by (simp_all add: reopening_def housework_def no_update_def)
  have f: "fid alice_bob = 1" by (simp add: alice_bob_def)
  note inst = completed_implies_completedAt[of reopening demo_store 1 alice_bob 7
      "chore 7 1 (Some ''Alice'')" 2000 "Some 1500"]
    completed_implies_completedAt[of housework demo_store 1 alice_bob 7
      "chore 7 1 (Some ''Alice'')" 2000 "Some 1500"]
    completed_implies_completedAt[of housework finished_store 1 alice_bob 7
      "(chore 7 1 (Some ''Alice''))\<lparr>completed := True, completedAt := Some 1000\<rparr>" 2000 "Some 1500"]
  from inst(1) r have a: "list_all stamped (Tasks (serve_all reopening empty_store))" by simp
  from inst(2) h d have b: "list_all stamped (Tasks (serve_all housework demo_store))" by simp
  from inst(2) demo_auth demo_task7
  have c: "map_option completedAt (findOne_task 7 1 (snd (post_complete 2000 1 7 (Some 1500) demo_store)))
     = Some (Some 1500)"
    by (auto simp: f chore_def)
  from inst(3) finished_auth finished_task7
  have "map_option completedAt (findOne_task 7 1 (snd (post_complete 2000 1 7 (Some 1500) finished_store)))
     = Some (Some 1000)"
    by (auto simp: f)
  with a b c show ?thesis by simp
qed

text \<open>
  The claim as stated fails three ways. After the update route has set \<open>completed\<close> to
  false the task keeps its \<open>completedAt\<close> of 30; completing it again at 50 overwrites that;
  and an update whose body is \<open>{completedAt: null}\<close> leaves a completed task without
  \<open>completedAt\<close>.
\<close>

theorem completedAt_iff_completed_counterexample:
  "\<not> list_all completedAt_iff_completed (Tasks (serve_all reopening empty_store)) \<and>
   Tasks (serve_all reopening empty_store) =
     [\<lparr>tid = 1, tfamily = 0, title = ''T'', description = None, priority = Medium,
       assignedTo = Some ''Alice'', dueDate = None, completed = False, completedAt = Some 30,
       comments = [], createdAt = 20\<rparr>] \<and>
   Tasks (serve_all (reopening @ [(50, 0, PostComplete 1 None)]) empty_store) =
     [\<lparr>tid = 1, tfamily = 0, title = ''T'', description = None, priority = Medium,
       assignedTo = Some ''Alice'', dueDate = None, completed = True, completedAt = Some 50,
       comments = [], createdAt = 20\<rparr>] \<and>
   \<not> list_all completedAt_iff_completed (Tasks (serve_all clearing empty_store)) \<and>
   Tasks (serve_all clearing empty_store) =
     [\<lparr>tid = 1, tfamily = 0, title = ''T'', description = None, priority = Medium,
       assignedTo = Some ''Alice'', dueDate = None, completed = True, completedAt = None,
       comments = [], createdAt = 20\<rparr>]"
  by code_simp

section \<open>Stored documents are valid\<close>

text \<open>
  Every document the handlers write passes validation, so from the empty store every
  stored document is valid; this is why the saves of the completion and assignment
  routes, which change no validated field of a loaded document, succeed.
\<close>

lemma valid_credit:
  assumes "valid_family fam" and "k < length (members fam)"
  shows "valid_family (fam\<lparr>members := (members fam)[k := (members fam ! k)\<lparr>score := x\<rparr>]\<rparr>)"
proof -
  from assms have "valid_member (members fam ! k)"
    by (simp add: valid_family_def list_all_length)
  then have "valid_member ((members fam ! k)\<lparr>score := x\<rparr>)" by (simp add: valid_member_def)
  with assms show ?thesis
    by (auto simp: valid_family_def list_all_length nth_list_update)
qed

lemma all_save_family:
  "list_all P (Families s) \<Longrightarrow> P f \<Longrightarrow> list_all P (Families (save_family f s))"
  by (simp add: save_family_def list_all_replace)

lemma all_authenticated:
  "list_all P (Families s) \<Longrightarrow> authenticate c s = Some fam \<Longrightarrow> P fam"
  by (auto dest: authenticate_in_Families simp: list_all_iff)

lemma valid_store_complete:
  assumes t: "list_all valid_task (Tasks s)" and f: "list_all valid_family (Families s)"
  shows "list_all valid_task (Tasks (snd (post_complete now c i date s))) \<and>
         list_all valid_family (Families (snd (post_complete now c i date s)))"
proof (cases "authenticate c s")
  case None
  with assms show ?thesis by (simp add: post_complete_def)
next
  case (Some fam)
  note auth = this
  show ?thesis
  proof (cases "findOne_task i (fid fam) s")
    case None
    with auth assms show ?thesis by (simp add: post_complete_def complete_handler_def)
  next
    case (Some task)
    let ?t' = "task\<lparr>completed := True,
                  completedAt := Some (case date of Some d \<Rightarrow> d | None \<Rightarrow> now)\<rparr>"
    from all_found[OF t Some] have vt: "valid_task ?t'" by (simp add: valid_task_def)
    note s1 = all_save_task[OF t vt]
    show ?thesis
    proof (cases "completed task")
      case True
      with post_complete_done[OF auth Some True, of now date] assms show ?thesis by simp
    next
      case False
      show ?thesis
      proof (cases "truthy (assignedTo task) \<and>
          find_ref (\<lambda>m. Some (name m) = assignedTo task) (members fam) \<noteq> None")
        case True
        then obtain k n where k: "find_ref (\<lambda>m. Some (name m) = assignedTo task) (members fam) = Some k"
          and n: "assignedTo task = Some n" "n \<noteq> []"
          by (cases "assignedTo task") auto
        from find_ref_Some[OF k] have kl: "k < length (members fam)" by simp
        from valid_credit[OF all_authenticated[OF f auth] kl]
        have vf: "valid_family (fam\<lparr>members := (members fam)[k := (members fam ! k)
                    \<lparr>score := Number_add (score (members fam ! k)) 1\<rparr>]\<rparr>)" .
        have f1: "list_all valid_family (Families (save_task ?t' s))"
          using f by (simp add: Families_save_task)
        show ?thesis
          unfolding post_complete_credit[OF auth Some False n k, of now date] snd_conv
          using s1 all_save_family[OF f1 vf] by (simp add: Tasks_save_family)
      next
        case nc: False
        then have none: "\<not> truthy (assignedTo task) \<or>
            find_ref (\<lambda>m. Some (name m) = assignedTo task) (members fam) = None" by auto
        show ?thesis
          unfolding post_complete_no_credit[OF auth Some False none, of now date] snd_conv
          using s1 f by (simp add: Families_save_task)
      qed
    qed
  qed
qed

lemma valid_store_serve:
  assumes t: "list_all valid_task (Tasks s)" and f: "list_all valid_family (Families s)"
  shows "list_all valid_task (Tasks (serve rq s)) \<and> list_all valid_family (Families (serve rq s))"
proof (cases rq)
  case (fields now c r)
  show ?thesis
  proof (cases r)
    case (Register nm cd ms)
    with fields assms show ?thesis
      by (simp add: post_register_def insert_family_def Let_def split: option.splits)
  next
    case (PostMember nm)
    with fields assms show ?thesis
      by (auto simp: post_member_def Let_def Tasks_save_family all_save_family
          split: option.splits)
  next
    case (PostTask b)
    with fields assms show ?thesis
      by (simp add: post_task_def insert_task_def Let_def split: option.splits)
  next
    case (PutTask i u)
    with fields assms show ?thesis
      by (auto simp: put_task_def update_handler_def Let_def Families_save_task all_save_task
          split: option.splits)
  next
    case (DeleteTask i)
    with fields assms show ?thesis
      by (simp add: delete_task_def deleteOne_task_def list_all_delete_first Let_def
          split: option.splits)
  next
    case (PostAssign i mem)
    have "list_all valid_task (Tasks (snd (post_assign c i mem s)))"
    proof (cases "authenticate c s")
      case None
      with t show ?thesis by (simp add: post_assign_def)
    next
      case (Some fam)
      show ?thesis
      proof (cases "findOne_task i (fid fam) s")
        case None
        with Some t show ?thesis by (simp add: post_assign_def)
      next
        case found: (Some task)
        from all_found[OF t found] have "valid_task (task\<lparr>assignedTo := Some mem\<rparr>)"
          by (simp add: valid_task_def)
        from all_save_task[OF t this] found Some t
        show ?thesis by (simp add: post_assign_def Let_def)
      qed
    qed
    moreover have "Families (snd (post_assign c i mem s)) = Families s"
      by (simp add: post_assign_def Families_save_task Let_def split: option.splits)
    ultimately show ?thesis using PostAssign fields f by simp
  next
    case (PostComplete i date)
    with fields valid_store_complete[OF assms, of now c i date] show ?thesis by simp
  next
    case (PostComment i mem body)
    with fields assms show ?thesis
      by (auto simp: post_comment_def Let_def Families_save_task all_save_task
          split: option.splits)
  qed
qed

lemma valid_store_serve_all:
  "list_all valid_task (Tasks (serve_all rs empty_store)) \<and>
   list_all valid_family (Families (serve_all rs empty_store))"
proof -
  have "list_all valid_task (Tasks s) \<and> list_all valid_family (Families s) \<Longrightarrow>
        list_all valid_task (Tasks (fold serve rs s)) \<and>
        list_all valid_family (Families (fold serve rs s))" for s
    by (induction rs arbitrary: s) (simp_all add: valid_store_serve)
  then show ?thesis by (simp add: serve_all_def empty_store_def)
qed

section \<open>Statistics per member\<close>

text \<open>
  C4. One record per member, in registry order: the member's name; the number of the
  family's tasks whose \<open>assignedTo\<close> is exactly that name; the number of those that are
  completed, which is at most the former; and the score stored with the member. A member
  with no task has both counts zero.
\<close>

theorem member_statistics:
  "length (stats_members_handler fam s) = length (members fam) \<and>
   (\<forall>k<length (members fam).
      st_member (stats_members_handler fam s ! k) = name (members fam ! k) \<and>
      totalTasks (stats_members_handler fam s ! k) =
        length (filter (\<lambda>t. tfamily t = fid fam \<and> assignedTo t = Some (name (members fam ! k)))
                  (Tasks s)) \<and>
      completedTasks (stats_members_handler fam s ! k) =
        length (filter (\<lambda>t. (tfamily t = fid fam \<and> assignedTo t = Some (name (members fam ! k)))
                             \<and> completed t) (Tasks s)) \<and>
      completedTasks (stats_members_handler fam s ! k) \<le> totalTasks (stats_members_handler fam s ! k) \<and>
      st_score (stats_members_handler fam s ! k) = score (members fam ! k))"
proof (intro conjI allI impI)
  show "length (stats_members_handler fam s) = length (members fam)"
    by (simp add: stats_members_handler_def Let_def)
next
  fix k assume k: "k < length (members fam)"
  then have nth: "stats_members_handler fam s ! k =
      \<lparr>st_member = name (members fam ! k),
        totalTasks = length (filter (\<lambda>t. assignedTo t = Some (name (members fam ! k))) (find_tasks (fid fam) s)),
        completedTasks = length (filter completed
            (filter (\<lambda>t. assignedTo t = Some (name (members fam ! k))) (find_tasks (fid fam) s))),
        st_score = score (members fam ! k)\<rparr>"
    by (simp add: stats_members_handler_def Let_def)
  show "st_member (stats_members_handler fam s ! k) = name (members fam ! k)"
    by (simp add: nth)
  show "totalTasks (stats_members_handler fam s ! k) =
        length (filter (\<lambda>t. tfamily t = fid fam \<and> assignedTo t = Some (name (members fam ! k)))
                  (Tasks s))"
    by (simp add: nth find_tasks_def conj_commute conj_left_commute)
  show "completedTasks (stats_members_handler fam s ! k) =
        length (filter (\<lambda>t. (tfamily t = fid fam \<and> assignedTo t = Some (name (members fam ! k)))
                             \<and> completed t) (Tasks s))"
    by (simp add: nth find_tasks_def conj_commute conj_left_commute)
  show "completedTasks (stats_members_handler fam s ! k) \<le> totalTasks (stats_members_handler fam s ! k)"
    by (simp add: nth del: filter_filter)
  show "st_score (stats_members_handler fam s ! k) = score (members fam ! k)"
    by (simp add: nth)
qed

theorem member_statistics_witness:
  "stats_members_handler alice_bob due_store =
     [\<lparr>st_member = ''Alice'', totalTasks = 2, completedTasks = 1, st_score = 0\<rparr>,
      \<lparr>st_member = ''Bob'', totalTasks = 0, completedTasks = 0, st_score = 0\<rparr>]"
proof -
  note inst = member_statistics[of alice_bob due_store]
  from inst have len: "length (stats_members_handler alice_bob due_store) = 2"
    by (simp add: alice_bob_def)
  then obtain x y where xy: "stats_members_handler alice_bob due_store = [x, y]"
    by (auto simp: length_Suc_conv numeral_2_eq_2)
  from inst have "st_member (stats_members_handler alice_bob due_store ! 0) = ''Alice'' \<and>
      totalTasks (stats_members_handler alice_bob due_store ! 0) = 2 \<and>
      completedTasks (stats_members_handler alice_bob due_store ! 0) = 1 \<and>
      st_score (stats_members_handler alice_bob due_store ! 0) = 0"
    by (simp add: alice_bob_def due_store_def demo_store_def chore_def)
  with xy have x: "x = \<lparr>st_member = ''Alice'', totalTasks = 2, completedTasks = 1, st_score = 0\<rparr>"
    by simp
  from inst have "1 < length (members alice_bob) \<longrightarrow>
      st_member (stats_members_handler alice_bob due_store ! 1) = ''Bob'' \<and>
      totalTasks (stats_members_handler alice_bob due_store ! 1) = 0 \<and>
      completedTasks (stats_members_handler alice_bob due_store ! 1) = 0 \<and>
      st_score (stats_members_handler alice_bob due_store ! 1) = 0"
    by (auto simp add: alice_bob_def due_store_def demo_store_def chore_def)
  with xy have y: "y = \<lparr>st_member = ''Bob'', totalTasks = 0, completedTasks = 0, st_score = 0\<rparr>"
    by (simp add: alice_bob_def)
  from xy x y show ?thesis by simp
qed


section \<open>Overdue alerts\<close>

text \<open>
  C5. A task is selected at the instant \<open>now\<close> exactly when it is stored, belongs to the
  family, is not completed, and has a due date earlier than \<open>now\<close>; the identifiers in the
  answer are those of the selected tasks; a task without due date is never selected, nor
  is its summary in the answer.
\<close>

theorem overdue_selection:
  "(t \<in> set (overdue_query (fid fam) now s) \<longleftrightarrow>
      t \<in> set (Tasks s) \<and> tfamily t = fid fam \<and> \<not> completed t \<and>
      (\<exists>d. dueDate t = Some d \<and> d < now)) \<and>
   (j \<in> a_id ` set (overdue_handler now fam s) \<longleftrightarrow>
      (\<exists>t\<in>set (Tasks s). tid t = j \<and> tfamily t = fid fam \<and> \<not> completed t \<and>
         (\<exists>d. dueDate t = Some d \<and> d < now))) \<and>
   (dueDate t = None \<longrightarrow>
      t \<notin> set (overdue_query (fid fam) now s) \<and> alert_of t \<notin> set (overdue_handler now fam s))"
proof -
  have q: "\<And>x. x \<in> set (overdue_query (fid fam) now s) \<longleftrightarrow>
      x \<in> set (Tasks s) \<and> tfamily x = fid fam \<and> \<not> completed x \<and>
      (\<exists>d. dueDate x = Some d \<and> d < now)"
    by (auto simp: overdue_query_def split: option.splits)
  have ids: "j \<in> a_id ` set (overdue_handler now fam s) \<longleftrightarrow>
      (\<exists>t\<in>set (overdue_query (fid fam) now s). tid t = j)"
    by (auto simp: overdue_handler_def alert_of_def image_iff)
  have due: "\<And>a. a \<in> set (overdue_handler now fam s) \<Longrightarrow> a_dueDate a \<noteq> None"
    by (auto simp: overdue_handler_def alert_of_def q)
  have "dueDate t = None \<longrightarrow> alert_of t \<notin> set (overdue_handler now fam s)"
    using due[of "alert_of t"] by (auto simp: alert_of_def)
  moreover have "dueDate t = None \<longrightarrow> t \<notin> set (overdue_query (fid fam) now s)"
    by (simp add: q)
  ultimately show ?thesis using q[of t] ids q by blast
qed

theorem overdue_selection_witness:
  "(chore 8 1 None)\<lparr>dueDate := Some 500\<rparr> \<in> set (overdue_query 1 1000 due_store) \<and>
   8 \<in> a_id ` set (overdue_handler 1000 alice_bob due_store) \<and>
   7 \<notin> a_id ` set (overdue_handler 1000 alice_bob due_store) \<and>
   12 \<notin> a_id ` set (overdue_handler 1000 alice_bob due_store) \<and>
   10 \<notin> a_id ` set (overdue_handler 1000 alice_bob due_store) \<and>
   chore 9 1 (Some ''Carol'') \<notin> set (overdue_query 1 1000 due_store)"
proof -
  have f: "fid alice_bob = 1" by (simp add: alice_bob_def)
  have a: "(chore 8 1 None)\<lparr>dueDate := Some 500\<rparr> \<in> set (overdue_query 1 1000 due_store)"
    using overdue_selection[of "(chore 8 1 None)\<lparr>dueDate := Some 500\<rparr>" alice_bob 1000 due_store 8]
    by (simp add: f due_store_def chore_def)
  have b: "8 \<in> a_id ` set (overdue_handler 1000 alice_bob due_store)"
    using overdue_selection[of "(chore 8 1 None)\<lparr>dueDate := Some 500\<rparr>" alice_bob 1000 due_store 8]
    by (simp add: f due_store_def chore_def)
  have c: "7 \<notin> a_id ` set (overdue_handler 1000 alice_bob due_store)"
    using overdue_selection[of "chore 9 1 (Some ''Carol'')" alice_bob 1000 due_store 7]
    by (simp add: f due_store_def chore_def)
  have d: "12 \<notin> a_id ` set (overdue_handler 1000 alice_bob due_store)"
    using overdue_selection[of "chore 9 1 (Some ''Carol'')" alice_bob 1000 due_store 12]
    by (simp add: f due_store_def chore_def)
  have e: "10 \<notin> a_id ` set (overdue_handler 1000 alice_bob due_store)"
    using overdue_selection[of "chore 9 1 (Some ''Carol'')" alice_bob 1000 due_store 10]
    by (simp add: f due_store_def chore_def)
  have g: "chore 9 1 (Some ''Carol'') \<notin> set (overdue_query 1 1000 due_store)"
    using overdue_selection[of "chore 9 1 (Some ''Carol'')" alice_bob 1000 due_store 7]
    by (simp add: f chore_def)
  from a b c d e g show ?thesis by simp
qed

section \<open>History: totals and order\<close>

lemma map_has_iff: "map_has m k \<longleftrightarrow> k \<in> fst ` set m"
  by (simp add: map_has_def map_of_eq_None_iff)

lemma replace_absent:
  "k \<notin> fst ` set m \<Longrightarrow> map (\<lambda>(k', v'). if k' = k then (k', v) else (k', v')) m = m"
  by (induction m) auto

lemma replace_keys: "map fst (map (\<lambda>(k', v'). if k' = k then (k', v) else (k', v')) m) = map fst m"
  by (induction m) auto

lemma replace_sum:
  fixes f :: "bucket \<Rightarrow> nat"
  assumes "distinct (map fst m)" and "map_of m k = Some e"
  shows "sum_list (map (f \<circ> snd) (map (\<lambda>(k', v'). if k' = k then (k', v) else (k', v')) m)) + f e
         = sum_list (map (f \<circ> snd) m) + f v"
  using assms
proof (induction m)
  case Nil
  then show ?case by simp
next
  case (Cons a m)
  obtain k' v' where a: "a = (k', v')" by (cases a)
  show ?case
  proof (cases "k' = k")
    case True
    with Cons.prems a have "k \<notin> fst ` set m" and "v' = e" by auto
    with True a show ?thesis by (simp add: replace_absent)
  next
    case False
    with Cons a show ?thesis by simp
  qed
qed

lemma replace_periods:
  assumes "map (b_period \<circ> snd) m = map fst m" and "b_period v = k"
  shows "map (b_period \<circ> snd) (map (\<lambda>(k', v'). if k' = k then (k', v) else (k', v')) m) = map fst m"
  using assms by (induction m) auto

lemma period_of_entry:
  "map (b_period \<circ> snd) m = map fst m \<Longrightarrow> map_of m k = Some e \<Longrightarrow> b_period e = k"
  by (induction m) (auto split: if_splits)

lemma history_step_new:
  assumes "map_of m (bucket_key tza p (createdAt t)) = None"
  shows "history_step tza p t m =
           m @ [(bucket_key tza p (createdAt t),
                 \<lparr>b_period = bucket_key tza p (createdAt t), b_total = 1,
                  b_completed = (if completed t then 1 else 0)\<rparr>)]"
proof -
  let ?k = "bucket_key tza p (createdAt t)"
  let ?fresh = "\<lparr>b_period = ?k, b_total = 0, b_completed = 0\<rparr>"
  let ?m1 = "m @ [(?k, ?fresh)]"
  from assms have absent: "?k \<notin> fst ` set m"
    by (simp add: map_of_eq_None_iff)
  from assms have nh: "\<not> map_has m ?k" by (simp add: map_has_def)
  then have set1: "map_set m ?k ?fresh = ?m1" by (simp add: map_set_def)
  have get1: "map_get ?m1 ?k = Some ?fresh" using assms by (simp add: map_get_def map_add_def)
  have has1: "map_has ?m1 ?k" by (simp add: map_has_iff)
  have "history_step tza p t m =
          map_set ?m1 ?k (?fresh\<lparr>b_total := b_total ?fresh + 1,
             b_completed := (if completed t then b_completed ?fresh + 1 else b_completed ?fresh)\<rparr>)"
    unfolding history_step_def Let_def
    by (simp only: nh set1 get1 not_False_eq_True if_True option.case)
  also have "\<dots> = m @ [(?k, \<lparr>b_period = ?k, b_total = 1,
                  b_completed = (if completed t then 1 else 0)\<rparr>)]"
    using has1 absent by (simp add: map_set_def replace_absent)
  finally show ?thesis .
qed

lemma history_step_old:
  assumes "map_of m (bucket_key tza p (createdAt t)) = Some e"
  shows "history_step tza p t m =
           map (\<lambda>(k', v'). if k' = bucket_key tza p (createdAt t)
                  then (k', e\<lparr>b_total := b_total e + 1,
                              b_completed := (if completed t then b_completed e + 1
                                              else b_completed e)\<rparr>)
                  else (k', v')) m"
proof -
  let ?k = "bucket_key tza p (createdAt t)"
  from assms have has: "map_has m ?k" by (simp add: map_has_def)
  from assms have get: "map_get m ?k = Some e" by (simp add: map_get_def)
  show ?thesis
    unfolding history_step_def Let_def
    by (simp only: has get not_True_eq_False if_False if_True option.case map_set_def)
qed

lemma history_step_inv:
  assumes d: "distinct (map fst m)" and per: "map (b_period \<circ> snd) m = map fst m"
  shows "distinct (map fst (history_step tza p t m)) \<and>
         map (b_period \<circ> snd) (history_step tza p t m) = map fst (history_step tza p t m) \<and>
         sum_list (map (b_total \<circ> snd) (history_step tza p t m)) =
           sum_list (map (b_total \<circ> snd) m) + 1 \<and>
         sum_list (map (b_completed \<circ> snd) (history_step tza p t m)) =
           sum_list (map (b_completed \<circ> snd) m) + (if completed t then 1 else 0)"
proof (cases "map_of m (bucket_key tza p (createdAt t))")
  case None
  then have "bucket_key tza p (createdAt t) \<notin> fst ` set m"
    by (simp add: map_of_eq_None_iff)
  with d per show ?thesis
    unfolding history_step_new[OF None] by simp
next
  case (Some e)
  let ?k = "bucket_key tza p (createdAt t)"
  let ?e' = "e\<lparr>b_total := b_total e + 1,
               b_completed := (if completed t then b_completed e + 1 else b_completed e)\<rparr>"
  have pe: "b_period ?e' = ?k" using period_of_entry[OF per Some] by simp
  have "sum_list (map (b_total \<circ> snd) (history_step tza p t m)) + b_total e =
          sum_list (map (b_total \<circ> snd) m) + b_total ?e'"
    unfolding history_step_old[OF Some] by (rule replace_sum[OF d Some])
  moreover have "sum_list (map (b_completed \<circ> snd) (history_step tza p t m)) + b_completed e =
          sum_list (map (b_completed \<circ> snd) m) + b_completed ?e'"
    unfolding history_step_old[OF Some] by (rule replace_sum[OF d Some])
  moreover have "map fst (history_step tza p t m) = map fst m"
    unfolding history_step_old[OF Some] by (rule replace_keys)
  moreover have "map (b_period \<circ> snd) (history_step tza p t m) = map fst m"
    unfolding history_step_old[OF Some] by (rule replace_periods[OF per pe])
  ultimately show ?thesis using d by (cases "completed t") simp_all
qed

lemma history_fold_inv:
  assumes "distinct (map fst m)" and "map (b_period \<circ> snd) m = map fst m"
  shows "distinct (map fst (fold (history_step tza p) ts m)) \<and>
         map (b_period \<circ> snd) (fold (history_step tza p) ts m) =
           map fst (fold (history_step tza p) ts m) \<and>
         sum_list (map (b_total \<circ> snd) (fold (history_step tza p) ts m)) =
           sum_list (map (b_total \<circ> snd) m) + length ts \<and>
         sum_list (map (b_completed \<circ> snd) (fold (history_step tza p) ts m)) =
           sum_list (map (b_completed \<circ> snd) m) + length (filter completed ts)"
  using assms
proof (induction ts arbitrary: m)
  case Nil
  then show ?case by simp
next
  case (Cons t ts)
  from history_step_inv[OF Cons.prems, of tza p t]
  have step: "distinct (map fst (history_step tza p t m))"
      "map (b_period \<circ> snd) (history_step tza p t m) = map fst (history_step tza p t m)"
      "sum_list (map (b_total \<circ> snd) (history_step tza p t m)) =
           sum_list (map (b_total \<circ> snd) m) + 1"
      "sum_list (map (b_completed \<circ> snd) (history_step tza p t m)) =
           sum_list (map (b_completed \<circ> snd) m) + (if completed t then 1 else 0)"
    by simp_all
  from Cons.IH[OF step(1,2)]
  have ih: "distinct (map fst (fold (history_step tza p) ts (history_step tza p t m)))"
      "map (b_period \<circ> snd) (fold (history_step tza p) ts (history_step tza p t m)) =
         map fst (fold (history_step tza p) ts (history_step tza p t m))"
      "sum_list (map (b_total \<circ> snd) (fold (history_step tza p) ts (history_step tza p t m))) =
         sum_list (map (b_total \<circ> snd) (history_step tza p t m)) + length ts"
      "sum_list (map (b_completed \<circ> snd) (fold (history_step tza p) ts (history_step tza p t m))) =
         sum_list (map (b_completed \<circ> snd) (history_step tza p t m)) + length (filter completed ts)"
    by blast+
  have unroll: "fold (history_step tza p) (t # ts) m =
                  fold (history_step tza p) ts (history_step tza p t m)"
    by simp
  have len: "length (t # ts) = length ts + 1"
    and flen: "length (filter completed (t # ts)) =
                 length (filter completed ts) + (if completed t then 1 else 0)"
    by simp_all
  show ?case
    unfolding unroll
  proof (intro conjI)
    show "distinct (map fst (fold (history_step tza p) ts (history_step tza p t m)))"
      by (rule ih(1))
    show "map (b_period \<circ> snd) (fold (history_step tza p) ts (history_step tza p t m)) =
         map fst (fold (history_step tza p) ts (history_step tza p t m))"
      by (rule ih(2))
    show "sum_list (map (b_total \<circ> snd) (fold (history_step tza p) ts (history_step tza p t m))) =
         sum_list (map (b_total \<circ> snd) m) + length (t # ts)"
      using ih(3) step(3) len by linarith
    show "sum_list (map (b_completed \<circ> snd) (fold (history_step tza p) ts (history_step tza p t m))) =
         sum_list (map (b_completed \<circ> snd) m) + length (filter completed (t # ts))"
      using ih(4) step(4) flen by linarith
  qed
qed

lemma sum_list_insort_key:
  fixes f :: "'a \<Rightarrow> nat"
  shows "sum_list (map f (insort_key g x xs)) = f x + sum_list (map f xs)"
  by (induction xs) auto

lemma sum_list_sort_key:
  fixes f :: "'a \<Rightarrow> nat"
  shows "sum_list (map f (sort_key g xs)) = sum_list (map f xs)"
  by (induction xs) (auto simp: sum_list_insort_key)

text \<open>
  C6. For either period, the \<open>total\<close>s of the answer add up to the number of the family's
  tasks and the \<open>completed\<close>s to the number of its completed tasks; the records are in
  ascending order of their period keys, the lexicographic order of strings by character
  code, and no key occurs twice.
\<close>

theorem history_totals:
  "sum_list (map b_total (history_handler tza p fam s)) = length (find_tasks (fid fam) s) \<and>
   sum_list (map b_completed (history_handler tza p fam s)) =
     length (filter completed (find_tasks (fid fam) s)) \<and>
   sorted (map b_period (history_handler tza p fam s)) \<and>
   distinct (map b_period (history_handler tza p fam s))"
proof -
  let ?m = "fold (history_step tza p) (find_tasks (fid fam) s) []"
  from history_fold_inv[of "[]" tza p "find_tasks (fid fam) s"]
  have d: "distinct (map fst ?m)" and per: "map (b_period \<circ> snd) ?m = map fst ?m"
    and tot: "sum_list (map (b_total \<circ> snd) ?m) = length (find_tasks (fid fam) s)"
    and com: "sum_list (map (b_completed \<circ> snd) ?m) =
                length (filter completed (find_tasks (fid fam) s))"
    by simp_all
  have h: "history_handler tza p fam s = sort_key b_period (map snd ?m)"
    by (simp add: history_handler_def Let_def)
  have "sum_list (map b_total (history_handler tza p fam s)) = length (find_tasks (fid fam) s)"
    unfolding h sum_list_sort_key map_map by (rule tot)
  moreover have "sum_list (map b_completed (history_handler tza p fam s)) =
     length (filter completed (find_tasks (fid fam) s))"
    unfolding h sum_list_sort_key map_map by (rule com)
  moreover have "sorted (map b_period (history_handler tza p fam s))"
    unfolding h by (rule sorted_sort_key)
  moreover have "distinct (map b_period (history_handler tza p fam s))"
  proof -
    from d have "distinct (map (b_period \<circ> snd) ?m)" by (simp only: per)
    then have "distinct (map b_period (map snd ?m))" by (simp only: map_map)
    then have "distinct (map snd ?m)" and "inj_on b_period (set (map snd ?m))"
      by (simp_all only: distinct_map)
    then show ?thesis unfolding h by (simp add: distinct_map)
  qed
  ultimately show ?thesis by simp
qed

theorem history_totals_witness:
  "sum_list (map b_total (history_handler 0 Week alice_bob history_store)) = 2 \<and>
   sum_list (map b_completed (history_handler 0 Week alice_bob history_store)) = 1 \<and>
   sum_list (map b_total (history_handler 0 Month alice_bob history_store)) = 2 \<and>
   sum_list (map b_completed (history_handler 0 Month alice_bob history_store)) = 1 \<and>
   sorted (map b_period (history_handler 0 Week alice_bob history_store))"
  using history_totals[of 0 Week alice_bob history_store]
    history_totals[of 0 Month alice_bob history_store]
  by (simp add: find_tasks_def history_store_def alice_bob_def chore_def)

lemma history_scenario:
  "history_handler 0 Week alice_bob history_store =
     [\<lparr>b_period = ''2024-W01'', b_total = 1, b_completed = 0\<rparr>,
      \<lparr>b_period = ''2024-W02'', b_total = 1, b_completed = 1\<rparr>] \<and>
   history_handler 0 Month alice_bob history_store =
     [\<lparr>b_period = ''2024-01'', b_total = 2, b_completed = 1\<rparr>]"
  by code_simp

section \<open>History: the bucket keys\<close>

lemma String_nat_1: "n < 10 \<Longrightarrow> String_nat n = [digit_char n]"
  by (subst String_nat.simps) simp

lemma String_nat_2: "10 \<le> n \<Longrightarrow> n < 100 \<Longrightarrow> String_nat n = two_digits n"
  by (subst String_nat.simps) (simp add: String_nat_1 two_digits_def)

lemma String_nat_3:
  "100 \<le> n \<Longrightarrow> n < 1000 \<Longrightarrow>
   String_nat n = [digit_char (n div 100), digit_char (n div 10 mod 10), digit_char (n mod 10)]"
  by (subst String_nat.simps) (simp add: String_nat_2 two_digits_def div_mult2_eq[symmetric])

lemma String_nat_4: "1000 \<le> n \<Longrightarrow> n < 10000 \<Longrightarrow> String_nat n = four_digits n"
  by (subst String_nat.simps) (simp add: String_nat_3 four_digits_def div_mult2_eq[symmetric])

lemma padStart_two:
  "0 < n \<Longrightarrow> n < 100 \<Longrightarrow> padStart 2 CHR ''0'' (String_nat n) = two_digits n"
proof (cases "n < 10")
  case True
  then show ?thesis
    by (simp add: String_nat_1 padStart_def two_digits_def digit_char_def)
next
  case False
  assume "n < 100"
  with False show ?thesis by (simp add: String_nat_2 padStart_def two_digits_def)
qed

lemma year_down_le: "TimeFromYear (year_down y t) \<le> t"
proof (induction y t rule: year_down.induct)
  case (1 y t)
  show ?case
  proof (cases "t < TimeFromYear y")
    case True
    with "1.IH" show ?thesis by (subst year_down.simps) simp
  next
    case False
    then show ?thesis by (subst year_down.simps) simp
  qed
qed

lemma year_up_bounds:
  "TimeFromYear y \<le> t \<Longrightarrow>
   TimeFromYear (year_up y t) \<le> t \<and> t < TimeFromYear (year_up y t + 1)"
proof (induction y t rule: year_up.induct)
  case (1 y t)
  show ?case
  proof (cases "TimeFromYear (y + 1) \<le> t")
    case True
    with "1.IH" show ?thesis by (subst (1 2) year_up.simps) simp
  next
    case False
    with "1.prems" show ?thesis by (subst (1 2) year_up.simps) simp
  qed
qed

lemma YearFromTime_bounds:
  "TimeFromYear (YearFromTime t) \<le> t \<and> t < TimeFromYear (YearFromTime t + 1)"
  unfolding YearFromTime_def by (rule year_up_bounds) (rule year_down_le)

lemma MonthFromTime_range: "0 \<le> MonthFromTime t \<and> MonthFromTime t \<le> 11"
  by (simp add: MonthFromTime_def Let_def)

lemma WeekDay_range: "0 \<le> WeekDay t \<and> WeekDay t \<le> 6"
  by (simp add: WeekDay_def)

lemma DaysInYear_le: "DaysInYear y \<le> 366"
  by (simp add: DaysInYear_def)

text \<open>
  The calendar on a few dates (UTC): the epoch was a Thursday in January 1970; the 29th of
  February 2024 is in month 1 and the next day in month 2; the last millisecond of 2023
  is in month 11 of 2023.
\<close>

lemma calendar_samples:
  "WeekDay 0 = 4 \<and> getFullYear 0 0 = 1970 \<and> getMonth 0 0 = 0 \<and>
   getMonth 0 1709164800000 = 1 \<and> getMonth 0 1709251200000 = 2 \<and>
   getFullYear 0 1704067199999 = 2023 \<and> getMonth 0 1704067199999 = 11 \<and>
   getDay 0 1704067200000 = 1"
  by code_simp

lemma local_year_bounds:
  "TimeFromYear (getFullYear tza date) \<le> date + tza \<and>
   date + tza < TimeFromYear (getFullYear tza date) + msPerDay * 366"
proof -
  let ?y = "getFullYear tza date"
  from YearFromTime_bounds[of "date + tza"]
  have lo: "TimeFromYear ?y \<le> date + tza" and hi: "date + tza < TimeFromYear (?y + 1)"
    by (simp_all add: getFullYear_def LocalTime_def)
  have "TimeFromYear (?y + 1) = TimeFromYear ?y + msPerDay * DaysInYear ?y"
    unfolding TimeFromYear_def DayFromYear_step by (simp add: algebra_simps)
  also have "\<dots> \<le> TimeFromYear ?y + msPerDay * 366"
    using DaysInYear_le[of ?y] by (simp add: msPerDay_def)
  finally show ?thesis using lo hi by simp
qed

lemma weekNumber_formula:
  assumes "\<not> (0 \<le> getFullYear tza date \<and> getFullYear tza date \<le> 99)"
  shows "weekNumber tza date =
           \<lceil>(rat_of_int (date - UTC tza (TimeFromYear (getFullYear tza date))) / 86400000
              + rat_of_int (WeekDay (TimeFromYear (getFullYear tza date))) + 1) / 7\<rceil>"
  using assms
  by (auto simp add: weekNumber_def new_Date_Jan1_def getDay_def LocalTime_def UTC_def Let_def)

lemma week_quotient_bounds:
  fixes a b :: rat
  assumes "0 \<le> a" and "a < 366" and "0 \<le> b" and "b \<le> 6"
  shows "0 < (a + b + 1) / 7 \<and> (a + b + 1) / 7 \<le> 54"
  using assms by simp

lemma weekNumber_range:
  assumes "\<not> (0 \<le> getFullYear tza date \<and> getFullYear tza date \<le> 99)"
  shows "1 \<le> weekNumber tza date \<and> weekNumber tza date \<le> 54"
proof -
  let ?y = "getFullYear tza date"
  let ?x = "date - UTC tza (TimeFromYear ?y)"
  let ?wd = "WeekDay (TimeFromYear ?y)"
  let ?q = "(rat_of_int ?x / 86400000 + rat_of_int ?wd + 1) / 7"
  from local_year_bounds[of tza date]
  have x: "0 \<le> ?x" "?x < 366 * 86400000"
    by (simp_all add: UTC_def msPerDay_def)
  from WeekDay_range[of "TimeFromYear ?y"] have wd: "0 \<le> ?wd" "?wd \<le> 6" by simp_all
  from x(1) have x0: "0 \<le> rat_of_int ?x / 86400000" by simp
  from x(2) have "rat_of_int ?x < rat_of_int (366 * 86400000)"
    by (simp only: of_int_less_iff)
  then have x1: "rat_of_int ?x / 86400000 < 366" by simp
  from wd have w0: "0 \<le> rat_of_int ?wd" and w1: "rat_of_int ?wd \<le> 6" by simp_all
  note q = week_quotient_bounds[OF x0 x1 w0 w1]
  from q have "0 < \<lceil>?q\<rceil>" by (simp only: zero_less_ceiling)
  moreover from q have "?q \<le> rat_of_int 54" by simp
  then have "\<lceil>?q\<rceil> \<le> 54" by (rule ceiling_le)
  ultimately show ?thesis
    unfolding weekNumber_formula[OF assms] by simp
qed

lemma String_int_two:
  "1 \<le> i \<Longrightarrow> i \<le> 54 \<Longrightarrow> padStart 2 CHR ''0'' (String_int i) = two_digits (nat i)"
  by (simp add: String_int_def padStart_two)

lemma String_int_month:
  "0 \<le> i \<Longrightarrow> i \<le> 11 \<Longrightarrow> padStart 2 CHR ''0'' (String_int (i + 1)) = two_digits (nat (i + 1))"
  by (simp add: String_int_def padStart_two)

lemma String_int_year:
  "1000 \<le> i \<Longrightarrow> i \<le> 9999 \<Longrightarrow> String_int i = four_digits (nat i)"
  by (simp add: String_int_def String_nat_4)

text \<open>
  C7. For a creation date whose local year has four digits: the month key is the year, a
  hyphen and the two-digit calendar month (1 to 12); the week key is the year, \<open>-W\<close> and
  the two-digit week number, which lies between 1 and 54 and is the ceiling of a seventh
  of: the days (as a fraction) from local midnight of the first of January of that year
  to the date, plus that day's weekday (Sunday 0), plus one. A request without \<open>period\<close>
  is answered as one for weeks.
\<close>

theorem bucket_key_format:
  assumes "1000 \<le> getFullYear tza date" and "getFullYear tza date \<le> 9999"
  shows "bucket_key tza Month date =
           four_digits (nat (getFullYear tza date)) @ ''-'' @
           two_digits (nat (getMonth tza date + 1)) \<and>
         1 \<le> getMonth tza date + 1 \<and> getMonth tza date + 1 \<le> 12 \<and>
         bucket_key tza Week date =
           four_digits (nat (getFullYear tza date)) @ ''-W'' @
           two_digits (nat (weekNumber tza date)) \<and>
         1 \<le> weekNumber tza date \<and> weekNumber tza date \<le> 54 \<and>
         weekNumber tza date =
           \<lceil>(rat_of_int (date - UTC tza (TimeFromYear (getFullYear tza date))) / 86400000
              + rat_of_int (WeekDay (TimeFromYear (getFullYear tza date))) + 1) / 7\<rceil> \<and>
         get_stats_history tza c None s = get_stats_history tza c (Some Week) s"
proof -
  from assms have ny: "\<not> (0 \<le> getFullYear tza date \<and> getFullYear tza date \<le> 99)" by simp
  from MonthFromTime_range[of "LocalTime tza date"]
  have m: "0 \<le> getMonth tza date" "getMonth tza date \<le> 11"
    by (simp_all add: getMonth_def)
  note w = weekNumber_range[OF ny]
  have "bucket_key tza Month date =
           four_digits (nat (getFullYear tza date)) @ ''-'' @
           two_digits (nat (getMonth tza date + 1))"
    by (simp add: bucket_key_def String_int_year[OF assms] String_int_month[OF m])
  moreover have "bucket_key tza Week date =
           four_digits (nat (getFullYear tza date)) @ ''-W'' @
           two_digits (nat (weekNumber tza date))"
    using w by (simp add: bucket_key_def String_int_year[OF assms] String_int_two)
  moreover have "get_stats_history tza c None s = get_stats_history tza c (Some Week) s"
    by (simp add: get_stats_history_def split: option.splits)
  ultimately show ?thesis using m w weekNumber_formula[OF ny] by simp
qed

theorem bucket_key_format_witness:
  "bucket_key 0 Month 1704153600000 = ''2024-01'' \<and>
   bucket_key 0 Week 1704153600000 = ''2024-W01'' \<and>
   bucket_key 0 Month 1704758400000 = ''2024-01'' \<and>
   bucket_key 0 Week 1704758400000 = ''2024-W02''"
proof -
  have y1: "1000 \<le> getFullYear 0 1704153600000" "getFullYear 0 1704153600000 \<le> 9999"
    and y2: "1000 \<le> getFullYear 0 1704758400000" "getFullYear 0 1704758400000 \<le> 9999"
    by code_simp+
  have v1: "getFullYear 0 1704153600000 = 2024" "getMonth 0 1704153600000 = 0"
      "weekNumber 0 1704153600000 = 1"
    and v2: "getFullYear 0 1704758400000 = 2024" "getMonth 0 1704758400000 = 0"
      "weekNumber 0 1704758400000 = 2"
    by code_simp+
  from bucket_key_format[OF y1] bucket_key_format[OF y2]
  show ?thesis
    by (simp add: v1 v2 four_digits_def two_digits_def digit_char_def)
qed

end
